theory Spec2Isabelle
  imports Main "HOL-Library.Word" "HOL-Library.Signed_Division" "HOL-Library.Monad_Syntax"
begin

unbundle bit_operations_syntax

section \<open>Machine types of the AVR target\<close>

text \<open>
  The sketches are built for an 8-bit AVR: \<open>byte\<close> and \<open>boolean\<close> are 8 bits wide,
  \<open>int\<close> is 16 bits and \<open>unsigned long\<close> is 32 bits. Unsigned values are words, so
  their arithmetic wraps. Values of type \<open>int\<close> are kept as HOL integers; every
  operation on them that can leave the 16-bit range is wrapped explicitly
  (two's complement, as avr-gcc computes it), and every conversion is written out.
\<close>

type_synonym byte = "8 word"
type_synonym ulong = "32 word"

definition wrap16 :: "int \<Rightarrow> int" where
  "wrap16 x = sint (word_of_int x :: 16 word)"

definition add16 :: "int \<Rightarrow> int \<Rightarrow> int" where
  "add16 a b = wrap16 (a + b)"

definition sub16 :: "int \<Rightarrow> int \<Rightarrow> int" where
  "sub16 a b = wrap16 (a - b)"

definition mul16 :: "int \<Rightarrow> int \<Rightarrow> int" where
  "mul16 a b = wrap16 (a * b)"

definition neg16 :: "int \<Rightarrow> int" where
  "neg16 a = wrap16 (- a)"

text \<open>C division and remainder truncate towards zero; a zero divisor is undefined.\<close>

definition div16 :: "int \<Rightarrow> int \<Rightarrow> int option" where
  "div16 a b = (if b = 0 then None else Some (wrap16 (a sdiv b)))"

definition mod16 :: "int \<Rightarrow> int \<Rightarrow> int option" where
  "mod16 a b = (if b = 0 then None else Some (wrap16 (a smod b)))"

definition int_of_ulong :: "ulong \<Rightarrow> int" where
  "int_of_ulong w = sint (ucast w :: 16 word)"

definition ulong_of_int :: "int \<Rightarrow> ulong" where
  "ulong_of_int x = word_of_int x"

definition byte_of_int :: "int \<Rightarrow> byte" where
  "byte_of_int x = word_of_int x"

definition byte_of_ulong :: "ulong \<Rightarrow> byte" where
  "byte_of_ulong w = ucast w"

section \<open>ClockButton\<close>

record ClockButton =
  inputPin :: int
  activeLow :: bool
  button1PressedCount :: int
  button1PressStartMillis :: ulong
  buttonWasReleased :: bool
  buttonPress8S :: bool
  buttonPress2S :: bool
  buttonPress1S :: bool
  buttonPress :: bool
  buttonPressRelease8S :: bool
  buttonPressRelease2S :: bool
  buttonPressRelease1S :: bool
  buttonPressRelease :: bool

definition debounceCounter :: int where
  "debounceCounter = 5"

text \<open>The constructor together with the member initialisers of the class.\<close>

definition ClockButton_new :: "int \<Rightarrow> bool \<Rightarrow> ClockButton" where
  "ClockButton_new pin al =
     \<lparr> inputPin = pin, activeLow = al,
       button1PressedCount = 0, button1PressStartMillis = 0,
       buttonWasReleased = False,
       buttonPress8S = False, buttonPress2S = False,
       buttonPress1S = False, buttonPress = False,
       buttonPressRelease8S = False, buttonPressRelease2S = False,
       buttonPressRelease1S = False, buttonPressRelease = False \<rparr>"

definition isButtonPressedNow :: "ClockButton \<Rightarrow> bool" where
  "isButtonPressedNow b = (button1PressedCount b = debounceCounter)"

definition isButtonPressed :: "ClockButton \<Rightarrow> bool" where
  "isButtonPressed b = buttonPress b"

definition isButtonPressed1S :: "ClockButton \<Rightarrow> bool" where
  "isButtonPressed1S b = buttonPress1S b"

definition isButtonPressed2S :: "ClockButton \<Rightarrow> bool" where
  "isButtonPressed2S b = buttonPress2S b"

definition isButtonPressed8S :: "ClockButton \<Rightarrow> bool" where
  "isButtonPressed8S b = buttonPress8S b"

text \<open>The read-and-clear accessors return their result and the updated object.\<close>

definition isButtonPressedAndReleased :: "ClockButton \<Rightarrow> bool \<times> ClockButton" where
  "isButtonPressedAndReleased b =
     (if buttonPressRelease b then (True, b\<lparr>buttonPressRelease := False\<rparr>)
      else (False, b))"

definition isButtonPressedReleased1S :: "ClockButton \<Rightarrow> bool \<times> ClockButton" where
  "isButtonPressedReleased1S b =
     (if buttonPressRelease1S b then (True, b\<lparr>buttonPressRelease1S := False\<rparr>)
      else (False, b))"

definition isButtonPressedReleased2S :: "ClockButton \<Rightarrow> bool \<times> ClockButton" where
  "isButtonPressedReleased2S b =
     (if buttonPressRelease2S b then (True, b\<lparr>buttonPressRelease2S := False\<rparr>)
      else (False, b))"

definition isButtonPressedReleased8S :: "ClockButton \<Rightarrow> bool \<times> ClockButton" where
  "isButtonPressedReleased8S b =
     (if buttonPressRelease8S b then (True, b\<lparr>buttonPressRelease8S := False\<rparr>)
      else (False, b))"

text \<open>
  \<open>checkButtonInternal\<close> reads the pin with \<open>digitalRead\<close>; the value read is the
  parameter \<open>pinValue\<close> here. The counter is only ever incremented below the
  threshold, so its additions cannot leave the range of \<open>int\<close>.
\<close>

definition checkButtonInternal :: "ulong \<Rightarrow> int \<Rightarrow> ClockButton \<Rightarrow> ClockButton" where
  "checkButtonInternal nowMillis pinValue b =
     (if pinValue = 0 then
        (let b1 = b\<lparr>buttonWasReleased := False\<rparr> in
         if button1PressedCount b1 < debounceCounter then
           (let b2 = b1\<lparr>button1PressedCount := button1PressedCount b1 + 1\<rparr> in
            if button1PressedCount b2 = debounceCounter
            then b2\<lparr>button1PressStartMillis := nowMillis\<rparr>
            else b2)
         else if nowMillis - button1PressStartMillis b1 > 8000 then
           b1\<lparr>buttonPress8S := True, buttonPress2S := True,
              buttonPress1S := True, buttonPress := True\<rparr>
         else if nowMillis - button1PressStartMillis b1 > 2000 then
           b1\<lparr>buttonPress8S := False, buttonPress2S := True,
              buttonPress1S := True, buttonPress := True\<rparr>
         else if nowMillis - button1PressStartMillis b1 > 1000 then
           b1\<lparr>buttonPress8S := False, buttonPress2S := False,
              buttonPress1S := True, buttonPress := True\<rparr>
         else
           b1\<lparr>buttonPress8S := False, buttonPress2S := False,
              buttonPress1S := False, buttonPress := True\<rparr>)
      else
        (let b1 =
           (if button1PressedCount b = debounceCounter then
              (let b2 = b\<lparr>buttonWasReleased := True,
                           buttonPressRelease8S := False, buttonPressRelease2S := False,
                           buttonPressRelease1S := False, buttonPressRelease := False\<rparr> in
               if buttonPress8S b2 then b2\<lparr>buttonPressRelease8S := True\<rparr>
               else if buttonPress2S b2 then b2\<lparr>buttonPressRelease2S := True\<rparr>
               else if buttonPress1S b2 then b2\<lparr>buttonPressRelease1S := True\<rparr>
               else if buttonPress b2 then b2\<lparr>buttonPressRelease := True\<rparr>
               else b2)
            else b)
         in b1\<lparr>buttonPress8S := False, buttonPress2S := False,
               buttonPress1S := False, buttonPress := False,
               button1PressedCount := 0\<rparr>))"

definition resetInternal :: "ClockButton \<Rightarrow> ClockButton" where
  "resetInternal b =
     b\<lparr>buttonPressRelease8S := False, buttonPressRelease2S := False,
       buttonPressRelease1S := False, buttonPressRelease := False,
       buttonPress8S := False, buttonPress2S := False,
       buttonPress1S := False, buttonPress := False,
       button1PressedCount := 0\<rparr>"

definition checkButton :: "ulong \<Rightarrow> int \<Rightarrow> ClockButton \<Rightarrow> ClockButton" where
  "checkButton nowMillis pinValue b = checkButtonInternal nowMillis pinValue b"

definition reset :: "ClockButton \<Rightarrow> ClockButton" where
  "reset b = resetInternal b"

subsection \<open>Sequences of calls on one button\<close>

datatype button_call =
    CheckButton ulong int
  | Reset
  | IsButtonPressedNow
  | IsButtonPressed
  | IsButtonPressed1S
  | IsButtonPressed2S
  | IsButtonPressed8S
  | IsButtonPressedAndReleased
  | IsButtonPressedReleased1S
  | IsButtonPressedReleased2S
  | IsButtonPressedReleased8S

fun call :: "button_call \<Rightarrow> ClockButton \<Rightarrow> ClockButton" where
  "call (CheckButton nowMillis pinValue) b = checkButton nowMillis pinValue b"
| "call Reset b = reset b"
| "call IsButtonPressedNow b = b"
| "call IsButtonPressed b = b"
| "call IsButtonPressed1S b = b"
| "call IsButtonPressed2S b = b"
| "call IsButtonPressed8S b = b"
| "call IsButtonPressedAndReleased b = snd (isButtonPressedAndReleased b)"
| "call IsButtonPressedReleased1S b = snd (isButtonPressedReleased1S b)"
| "call IsButtonPressedReleased2S b = snd (isButtonPressedReleased2S b)"
| "call IsButtonPressedReleased8S b = snd (isButtonPressedReleased8S b)"

fun run_calls :: "button_call list \<Rightarrow> ClockButton \<Rightarrow> ClockButton" where
  "run_calls [] b = b"
| "run_calls (c # cs) b = run_calls cs (call c b)"

fun is_accessor :: "button_call \<Rightarrow> bool" where
  "is_accessor (CheckButton nowMillis pinValue) = False"
| "is_accessor Reset = False"
| "is_accessor c = True"

text \<open>The properties of a button state that the claims speak about.\<close>

definition counter_in_range :: "ClockButton \<Rightarrow> bool" where
  "counter_in_range b =
     (0 \<le> button1PressedCount b \<and> button1PressedCount b \<le> debounceCounter)"

definition levels_nested :: "ClockButton \<Rightarrow> bool" where
  "levels_nested b =
     ((buttonPress8S b \<longrightarrow> buttonPress2S b) \<and>
      (buttonPress2S b \<longrightarrow> buttonPress1S b) \<and>
      (buttonPress1S b \<longrightarrow> buttonPress b))"

definition level_flags :: "ClockButton \<Rightarrow> bool list" where
  "level_flags b = [buttonPress b, buttonPress1S b, buttonPress2S b, buttonPress8S b]"

definition release_flags :: "ClockButton \<Rightarrow> bool list" where
  "release_flags b =
     [buttonPressRelease b, buttonPressRelease1S b,
      buttonPressRelease2S b, buttonPressRelease8S b]"

definition count_true :: "bool list \<Rightarrow> nat" where
  "count_true fs = length (filter (\<lambda>f. f) fs)"

definition release_count :: "ClockButton \<Rightarrow> nat" where
  "release_count b = count_true (release_flags b)"

definition no_level_below_threshold :: "ClockButton \<Rightarrow> bool" where
  "no_level_below_threshold b =
     (button1PressedCount b \<noteq> debounceCounter \<longrightarrow>
        level_flags b = [False, False, False, False])"

definition button_inv :: "ClockButton \<Rightarrow> bool" where
  "button_inv b =
     (counter_in_range b \<and> levels_nested b \<and> release_count b \<le> 1 \<and>
      no_level_below_threshold b)"

text \<open>The time a press has been held, as \<open>checkButtonInternal\<close> computes it (32-bit, wrapping).\<close>

definition held_ms :: "ulong \<Rightarrow> ClockButton \<Rightarrow> ulong" where
  "held_ms nowMillis b = nowMillis - button1PressStartMillis b"

text \<open>Five consecutive ticks that read the pin as pressed: a debounced press.\<close>

definition five_presses :: "ulong \<Rightarrow> button_call list" where
  "five_presses nowMillis =
     [CheckButton nowMillis 0, CheckButton nowMillis 0, CheckButton nowMillis 0,
      CheckButton nowMillis 0, CheckButton nowMillis 0]"

section \<open>Transition\<close>

subsection \<open>DisplayDefs.h: the display mode of a digit\<close>

definition BLANKED :: byte where "BLANKED = 0"
definition DIMMED :: byte where "DIMMED = 1"
definition FADE :: byte where "FADE = 2"
definition NORMAL :: byte where "NORMAL = 3"
definition BLINK :: byte where "BLINK = 4"
definition SCROLL :: byte where "SCROLL = 5"
definition BRIGHT :: byte where "BRIGHT = 6"

subsection \<open>The shared buffers and the object\<close>

text \<open>
  \<open>NumberArray\<close>, \<open>displayType\<close> and \<open>scrollback\<close> are globals of the sketch that the
  class reaches through \<open>extern\<close> declarations; both arrays have six slots.
\<close>

record globals =
  NumberArray :: "byte list"
  displayType :: "byte list"
  scrollback :: bool

definition six_slots :: "globals \<Rightarrow> bool" where
  "six_slots g = (length (NumberArray g) = 6 \<and> length (displayType g) = 6)"

text \<open>The private members; the leading underscore of their names is written \<open>t_\<close>.\<close>

record Transition =
  t_effectInDuration :: int
  t_effectOutDuration :: int
  t_holdDuration :: int
  t_started :: ulong
  t_end :: ulong
  t_regularDisplay :: "byte list"
  t_alternateDisplay :: "byte list"
  t_savedScrollback :: bool
  t_savedDisplayType :: "byte list"

text \<open>
  The constructor with the member initialisers. \<open>_savedScrollback\<close> has no initialiser;
  its indeterminate first value is the parameter \<open>savedScrollback0\<close>.
\<close>

definition Transition_new :: "int \<Rightarrow> int \<Rightarrow> int \<Rightarrow> bool \<Rightarrow> Transition" where
  "Transition_new effectInDuration effectOutDuration holdDuration savedScrollback0 =
     \<lparr> t_effectInDuration = effectInDuration,
       t_effectOutDuration = effectOutDuration,
       t_holdDuration = holdDuration,
       t_started = 0, t_end = 0,
       t_regularDisplay = [0, 0, 0, 0, 0, 0],
       t_alternateDisplay = [0, 0, 0, 0, 0, 0],
       t_savedScrollback = savedScrollback0,
       t_savedDisplayType = [FADE, FADE, FADE, FADE, FADE, FADE] \<rparr>"

text \<open>\<open>memcpy(dst, src, 6)\<close> on byte arrays: the first six bytes of \<open>dst\<close> become those of \<open>src\<close>.\<close>

definition memcpy6 :: "byte list \<Rightarrow> byte list \<Rightarrow> byte list" where
  "memcpy6 dst src = take 6 src @ drop 6 dst"

text \<open>Indexing an array outside its bounds is undefined: \<open>None\<close>.\<close>

definition array_get :: "byte list \<Rightarrow> int \<Rightarrow> byte option" where
  "array_get a i = (if 0 \<le> i \<and> i < int (length a) then Some (a ! nat i) else None)"

definition array_set :: "byte list \<Rightarrow> int \<Rightarrow> byte \<Rightarrow> byte list option" where
  "array_set a i v = (if 0 \<le> i \<and> i < int (length a) then Some (a[nat i := v]) else None)"

subsection \<open>Session timing\<close>

definition getEnd :: "Transition \<Rightarrow> ulong" where
  "getEnd t =
     t_started t + ulong_of_int (mul16 (t_effectInDuration t) 2)
       + ulong_of_int (t_holdDuration t)
       + ulong_of_int (mul16 (t_effectOutDuration t) 2)"

definition saveCurrentDisplayType :: "Transition \<Rightarrow> globals \<Rightarrow> Transition \<times> globals" where
  "saveCurrentDisplayType t g =
     (t\<lparr>t_savedDisplayType := memcpy6 (t_savedDisplayType t) (displayType g),
        t_savedScrollback := scrollback g\<rparr>,
      g\<lparr>scrollback := False\<rparr>)"

definition restoreCurrentDisplayType :: "Transition \<Rightarrow> globals \<Rightarrow> globals" where
  "restoreCurrentDisplayType t g =
     g\<lparr>displayType := memcpy6 (displayType g) (t_savedDisplayType t),
       scrollback := t_savedScrollback t\<rparr>"

definition start :: "ulong \<Rightarrow> Transition \<Rightarrow> globals \<Rightarrow> Transition \<times> globals" where
  "start now t g =
     (if t_end t < now then
        (let t1 = t\<lparr>t_started := now\<rparr>;
             t2 = t1\<lparr>t_end := getEnd t1\<rparr>
         in saveCurrentDisplayType t2 g)
      else (t, g))"

definition isMessageOnDisplay :: "ulong \<Rightarrow> Transition \<Rightarrow> bool" where
  "isMessageOnDisplay now t = (now < t_end t)"

definition updateRegularDisplaySeconds :: "int \<Rightarrow> Transition \<Rightarrow> Transition" where
  "updateRegularDisplaySeconds seconds t =
     t\<lparr>t_regularDisplay :=
         (t_regularDisplay t)[5 := byte_of_int (seconds smod 10),
                              4 := byte_of_int (seconds sdiv 10)]\<rparr>"

definition setRegularValues :: "Transition \<Rightarrow> globals \<Rightarrow> Transition" where
  "setRegularValues t g = t\<lparr>t_regularDisplay := memcpy6 (t_regularDisplay t) (NumberArray g)\<rparr>"

definition setAlternateValues :: "Transition \<Rightarrow> globals \<Rightarrow> Transition" where
  "setAlternateValues t g =
     t\<lparr>t_alternateDisplay := memcpy6 (t_alternateDisplay t) (NumberArray g)\<rparr>"

definition loadRegularValues :: "Transition \<Rightarrow> globals \<Rightarrow> globals" where
  "loadRegularValues t g = g\<lparr>NumberArray := memcpy6 (NumberArray g) (t_regularDisplay t)\<rparr>"

definition loadAlternateValues :: "Transition \<Rightarrow> globals \<Rightarrow> globals" where
  "loadAlternateValues t g = g\<lparr>NumberArray := memcpy6 (NumberArray g) (t_alternateDisplay t)\<rparr>"

subsection \<open>scroll\<close>

text \<open>
  One pass of the loop body of \<open>scroll\<close>. The operands are bytes; the index expressions
  are evaluated after promotion to \<open>int\<close>, where they stay far below the 16-bit limit.
\<close>

definition scroll_step :: "int \<Rightarrow> int \<Rightarrow> int \<Rightarrow> byte list \<Rightarrow> int \<Rightarrow> globals \<Rightarrow> globals option" where
  "scroll_step count offset slope copy i g =
     do {
       g1 \<leftarrow> (if i < count then
                do { d \<leftarrow> array_set (displayType g) (offset + i * slope) BLANKED;
                     Some (g\<lparr>displayType := d\<rparr>) }
              else Some g);
       (if i \<ge> count then
          do { v \<leftarrow> array_get copy (offset + (i - count) * slope);
               n \<leftarrow> array_set (NumberArray g1) (offset + i * slope) v;
               Some (g1\<lparr>NumberArray := n\<rparr>) }
        else Some g1)
     }"

function scroll_loop :: "byte \<Rightarrow> byte \<Rightarrow> byte \<Rightarrow> byte \<Rightarrow> byte list \<Rightarrow> globals \<Rightarrow> globals option" where
  "scroll_loop i count offset slope copy g =
     (if i < 6 then
        (case scroll_step (uint count) (uint offset) (uint slope) copy (uint i) g of
           None \<Rightarrow> None
         | Some g' \<Rightarrow> scroll_loop (i + 1) count offset slope copy g')
      else Some g)"
  by pat_completeness auto
termination
  apply (relation "measure (\<lambda>(i, count, offset, slope, copy, g). 6 - unat i)")
   apply simp
  apply (simp add: word_less_nat_alt unat_word_ariths)
  done

text \<open>
  The parameter is a \<open>byte\<close>: the test \<open>count < 0\<close> compares its promoted value, which is
  never negative. The result is the final \<open>count\<close> and the updated buffers.
\<close>

definition scroll :: "byte \<Rightarrow> globals \<Rightarrow> (int \<times> globals) option" where
  "scroll count0 g =
     (let copy = memcpy6 [0, 0, 0, 0, 0, 0] (NumberArray g);
          (count, offset, slope) =
            (if uint count0 < 0
             then (byte_of_int (- uint count0), 5, byte_of_int (- 1))
             else (count0, 0, 1))
      in case scroll_loop 0 count offset slope copy g of
           None \<Rightarrow> None
         | Some g' \<Rightarrow> Some (uint count, g'))"

subsection \<open>scramble\<close>

definition hash :: "ulong \<Rightarrow> ulong" where
  "hash x0 =
     (let x1 = ((drop_bit 16 x0) XOR x0) * 0x45d9f3b;
          x2 = ((drop_bit 16 x1) XOR x1) * 0x45d9f3b;
          x3 = (drop_bit 16 x2) XOR x2
      in x3)"

text \<open>
  The loop of \<open>scramble\<close>, with \<open>int i\<close>. \<open>msCount / 20 + i\<close> cannot leave the 16-bit
  range; it is converted to \<open>unsigned long\<close> for \<open>hash\<close>, and the remainder is stored
  into a byte.
\<close>

function scramble_loop :: "int \<Rightarrow> int \<Rightarrow> int \<Rightarrow> globals \<Rightarrow> globals option" where
  "scramble_loop msCount i end' g =
     (if i < end' then
        (case array_set (NumberArray g) i
                (byte_of_ulong (hash (ulong_of_int (msCount sdiv 20 + i)) mod 10)) of
           None \<Rightarrow> None
         | Some n \<Rightarrow> scramble_loop msCount (i + 1) end' (g\<lparr>NumberArray := n\<rparr>))
      else Some g)"
  by pat_completeness auto
termination
  by (relation "measure (\<lambda>(msCount, i, end', g). nat (end' - i))") auto

definition scramble :: "int \<Rightarrow> byte \<Rightarrow> byte \<Rightarrow> globals \<Rightarrow> (int \<times> globals) option" where
  "scramble msCount start' end' g =
     (case scramble_loop msCount (uint start') (uint end') g of
        None \<Rightarrow> None
      | Some g' \<Rightarrow> Some (uint start', g'))"

subsection \<open>The animation steppers\<close>

text \<open>\<open>-(a % d) * 6 / d\<close> and \<open>(a % d) * 6 / d\<close> in 16-bit \<open>int\<close> arithmetic.\<close>

definition neg_ramp :: "int \<Rightarrow> int \<Rightarrow> int option" where
  "neg_ramp a d = do { m \<leftarrow> mod16 a d; div16 (mul16 (neg16 m) 6) d }"

definition ramp :: "int \<Rightarrow> int \<Rightarrow> int option" where
  "ramp a d = do { m \<leftarrow> mod16 a d; div16 (mul16 m 6) d }"

definition scrollMsg :: "ulong \<Rightarrow> Transition \<Rightarrow> globals \<Rightarrow> (bool \<times> globals) option" where
  "scrollMsg now t g =
     (if now < t_end t then
        (let msCount = int_of_ulong (now - t_started t);
             eIn = t_effectInDuration t;
             eOut = t_effectOutDuration t;
             hold = t_holdDuration t
         in
         if msCount < eIn then
           do { r \<leftarrow> neg_ramp msCount eIn;
                (c, g') \<leftarrow> scroll (byte_of_int (sub16 r 1)) (loadRegularValues t g);
                Some (True, g') }
         else if msCount < mul16 eIn 2 then
           do { r \<leftarrow> ramp msCount eIn;
                (c, g') \<leftarrow> scroll (byte_of_int (sub16 5 r)) (loadAlternateValues t g);
                Some (True, g') }
         else if msCount < add16 (mul16 eIn 2) hold then
           Some (True, loadAlternateValues t g)
         else if msCount < add16 (add16 (mul16 eIn 2) hold) eOut then
           do { r \<leftarrow> ramp (sub16 msCount hold) eOut;
                (c, g') \<leftarrow> scroll (byte_of_int (add16 r 1)) (loadAlternateValues t g);
                Some (True, g') }
         else if msCount < add16 (add16 (mul16 eIn 2) hold) (mul16 eOut 2) then
           do { r \<leftarrow> ramp (sub16 msCount hold) eOut;
                (c, g') \<leftarrow> scroll (byte_of_int (sub16 r 5)) (loadRegularValues t g);
                Some (True, g') }
         else Some (True, g))
      else Some (False, g))"

definition scrambleMsg :: "ulong \<Rightarrow> Transition \<Rightarrow> globals \<Rightarrow> (bool \<times> globals) option" where
  "scrambleMsg now t g =
     (if now < t_end t then
        (let msCount = int_of_ulong (now - t_started t);
             eIn = t_effectInDuration t;
             eOut = t_effectOutDuration t;
             hold = t_holdDuration t
         in
         if msCount < eIn then
           do { r \<leftarrow> ramp msCount eIn;
                (c, g') \<leftarrow> scramble msCount (byte_of_int (sub16 5 r)) 6 (loadRegularValues t g);
                Some (True, g') }
         else if msCount < mul16 eIn 2 then
           do { r \<leftarrow> ramp msCount eIn;
                (c, g') \<leftarrow> scramble msCount 0 (byte_of_int (sub16 5 r)) (loadAlternateValues t g);
                Some (True, g') }
         else if msCount < add16 (mul16 eIn 2) hold then
           Some (True, loadAlternateValues t g)
         else if msCount < add16 (add16 (mul16 eIn 2) hold) eOut then
           do { r \<leftarrow> ramp (sub16 msCount hold) eOut;
                (c, g') \<leftarrow> scramble msCount 0 (byte_of_int (add16 r 1)) (loadAlternateValues t g);
                Some (True, g') }
         else if msCount < add16 (add16 (mul16 eIn 2) hold) (mul16 eOut 2) then
           do { r \<leftarrow> ramp (sub16 msCount hold) eOut;
                (c, g') \<leftarrow> scramble msCount (byte_of_int (add16 r 1)) 6 (loadRegularValues t g);
                Some (True, g') }
         else Some (True, g))
      else Some (False, g))"

definition scrollInScrambleOut :: "ulong \<Rightarrow> Transition \<Rightarrow> globals \<Rightarrow> (bool \<times> globals) option" where
  "scrollInScrambleOut now t g =
     (if now < t_end t then
        (let msCount = int_of_ulong (now - t_started t);
             eIn = t_effectInDuration t;
             eOut = t_effectOutDuration t;
             hold = t_holdDuration t
         in
         if msCount < eIn then
           do { r \<leftarrow> neg_ramp msCount eIn;
                (c, g') \<leftarrow> scroll (byte_of_int (sub16 r 1)) (loadRegularValues t g);
                Some (True, g') }
         else if msCount < mul16 eIn 2 then
           do { r \<leftarrow> ramp msCount eIn;
                (c, g') \<leftarrow> scroll (byte_of_int (sub16 5 r))
                             (loadAlternateValues t (restoreCurrentDisplayType t g));
                Some (True, g') }
         else if msCount < add16 (mul16 eIn 2) hold then
           Some (True, loadAlternateValues t g)
         else if msCount < add16 (add16 (mul16 eIn 2) hold) eOut then
           do { r \<leftarrow> ramp (sub16 msCount hold) eOut;
                (c, g') \<leftarrow> scramble msCount 0 (byte_of_int (add16 r 1)) (loadAlternateValues t g);
                Some (True, g') }
         else if msCount < add16 (add16 (mul16 eIn 2) hold) (mul16 eOut 2) then
           do { r \<leftarrow> ramp (sub16 msCount hold) eOut;
                (c, g') \<leftarrow> scramble msCount (byte_of_int (add16 r 1)) 6 (loadRegularValues t g);
                Some (True, g') }
         else Some (True, g))
      else Some (False, g))"

subsection \<open>Notions used to state the properties of Transition\<close>

text \<open>The arrays of the object have their declared size of six.\<close>

definition six_slot_members :: "Transition \<Rightarrow> bool" where
  "six_slot_members t =
     (length (t_regularDisplay t) = 6 \<and> length (t_alternateDisplay t) = 6 \<and>
      length (t_savedDisplayType t) = 6)"

text \<open>
  Durations for which the arithmetic of the steppers stays inside a 16-bit \<open>int\<close>: both
  effect durations are positive and at most 5462 (so six times a remainder fits), the
  hold duration is not negative, and the session length fits.
\<close>

definition valid_durations :: "Transition \<Rightarrow> bool" where
  "valid_durations t =
     (0 < t_effectInDuration t \<and> t_effectInDuration t \<le> 5462 \<and>
      0 < t_effectOutDuration t \<and> t_effectOutDuration t \<le> 5462 \<and>
      0 \<le> t_holdDuration t \<and>
      2 * t_effectInDuration t + t_holdDuration t + 2 * t_effectOutDuration t \<le> 32767)"

text \<open>Effect durations whose doubling in \<open>getEnd\<close> stays inside a 16-bit \<open>int\<close>.\<close>

definition doublings_fit :: "Transition \<Rightarrow> bool" where
  "doublings_fit t =
     (- 16384 \<le> t_effectInDuration t \<and> t_effectInDuration t \<le> 16383 \<and>
      - 16384 \<le> t_effectOutDuration t \<and> t_effectOutDuration t \<le> 16383)"

text \<open>The digit that \<open>scramble\<close> stores at position \<open>i\<close>.\<close>

definition scramble_digit :: "int \<Rightarrow> int \<Rightarrow> byte" where
  "scramble_digit msCount i = byte_of_ulong (hash (ulong_of_int (msCount sdiv 20 + i)) mod 10)"

text \<open>The buffers of the examples: digits 1 to 6, all shown normally, scrollback on.\<close>

definition digits_123456 :: globals where
  "digits_123456 =
     \<lparr> NumberArray = [1, 2, 3, 4, 5, 6],
       displayType = [NORMAL, NORMAL, NORMAL, NORMAL, NORMAL, NORMAL],
       scrollback = True \<rparr>"

section \<open>Properties of ClockButton\<close>

lemma count_true_simps:
  "count_true [] = 0"
  "count_true (f # fs) = (if f then 1 else 0) + count_true fs"
  by (simp_all add: count_true_def)

lemmas inv_defs = button_inv_def counter_in_range_def levels_nested_def
  release_count_def release_flags_def level_flags_def no_level_below_threshold_def
  debounceCounter_def count_true_simps

lemmas eval_defs = checkButton_def checkButtonInternal_def reset_def resetInternal_def
  ClockButton_new_def debounceCounter_def Let_def level_flags_def release_flags_def
  release_count_def count_true_simps held_ms_def isButtonPressedNow_def isButtonPressed_def
  isButtonPressedAndReleased_def isButtonPressedReleased1S_def
  isButtonPressedReleased2S_def isButtonPressedReleased8S_def

subsection \<open>The invariant of reachable button states\<close>

lemma button_inv_new: "button_inv (ClockButton_new p a)"
  by (simp add: inv_defs ClockButton_new_def)

lemma button_inv_checkButton: "button_inv b \<Longrightarrow> button_inv (checkButton n p b)"
  by (auto simp add: inv_defs checkButton_def checkButtonInternal_def Let_def split: if_splits)

lemma button_inv_call: "button_inv b \<Longrightarrow> button_inv (call c b)"
proof (cases c)
  case (CheckButton n p)
  assume "button_inv b"
  then show ?thesis using CheckButton by (simp add: button_inv_checkButton)
qed (simp_all add: inv_defs reset_def resetInternal_def
  isButtonPressedAndReleased_def isButtonPressedReleased1S_def
  isButtonPressedReleased2S_def isButtonPressedReleased8S_def split: if_splits)

lemma button_inv_run: "button_inv b \<Longrightarrow> button_inv (run_calls cs b)"
  by (induction cs arbitrary: b) (simp_all add: button_inv_call)

lemma accessor_keeps_press:
  "is_accessor c \<Longrightarrow>
     button1PressedCount (call c b) = button1PressedCount b \<and>
     button1PressStartMillis (call c b) = button1PressStartMillis b \<and>
     level_flags (call c b) = level_flags b"
  by (cases c)
     (simp_all add: level_flags_def isButtonPressedAndReleased_def isButtonPressedReleased1S_def
      isButtonPressedReleased2S_def isButtonPressedReleased8S_def)

lemma accessors_keep_press:
  "list_all is_accessor cs \<Longrightarrow>
     button1PressedCount (run_calls cs b) = button1PressedCount b \<and>
     button1PressStartMillis (run_calls cs b) = button1PressStartMillis b \<and>
     level_flags (run_calls cs b) = level_flags b"
  by (induction cs arbitrary: b) (simp_all add: accessor_keeps_press)

subsection \<open>Level flags while a press is held\<close>

text \<open>
  C2 (as amended). While a debounced press is in progress (the counter is at the
  threshold) and the pin reads pressed, \<open>checkButton\<close> sets the level flags from the held
  time \<open>now - pressStart\<close> (32-bit, wrapping) with strict lower bounds: held at most 1000
  gives pressed only; more than 1000 and at most 2000 gives pressed and 1s; more than 2000
  and at most 8000 gives pressed, 1s and 2s; more than 8000 gives all four. The release
  flags and the counter are left as they are.
\<close>

theorem checkButton_held_levels:
  assumes "button1PressedCount b = debounceCounter"
  shows "(held_ms now b \<le> 1000 \<longrightarrow>
            level_flags (checkButton now 0 b) = [True, False, False, False]) \<and>
         (1000 < held_ms now b \<and> held_ms now b \<le> 2000 \<longrightarrow>
            level_flags (checkButton now 0 b) = [True, True, False, False]) \<and>
         (2000 < held_ms now b \<and> held_ms now b \<le> 8000 \<longrightarrow>
            level_flags (checkButton now 0 b) = [True, True, True, False]) \<and>
         (8000 < held_ms now b \<longrightarrow>
            level_flags (checkButton now 0 b) = [True, True, True, True]) \<and>
         release_flags (checkButton now 0 b) = release_flags b \<and>
         button1PressedCount (checkButton now 0 b) = debounceCounter"
  using assms
  by (auto simp add: held_ms_def level_flags_def release_flags_def checkButton_def
      checkButtonInternal_def Let_def word_less_nat_alt word_le_nat_alt)

theorem checkButton_held_levels_witness:
  "level_flags (checkButton 1000 0 (run_calls (five_presses 0) (ClockButton_new 2 True)))
      = [True, False, False, False] \<and>
   level_flags (checkButton 1001 0 (run_calls (five_presses 0) (ClockButton_new 2 True)))
      = [True, True, False, False] \<and>
   level_flags (checkButton 2001 0 (run_calls (five_presses 0) (ClockButton_new 2 True)))
      = [True, True, True, False] \<and>
   level_flags (checkButton 8001 0 (run_calls (five_presses 0) (ClockButton_new 2 True)))
      = [True, True, True, True]"
proof -
  let ?b = "run_calls (five_presses 0) (ClockButton_new 2 True)"
  have c: "button1PressedCount ?b = debounceCounter"
    by (simp add: eval_defs five_presses_def)
  have s: "button1PressStartMillis ?b = 0"
    by (simp add: eval_defs five_presses_def)
  show ?thesis
    using checkButton_held_levels [OF c, of 1000] checkButton_held_levels [OF c, of 1001]
      checkButton_held_levels [OF c, of 2001] checkButton_held_levels [OF c, of 8001]
    by (simp add: held_ms_def s)
qed

text \<open>
  The claim C2 as stated fails at a held time of exactly 1000: after a debounced press that
  started at time 0, the tick at time 1000 sets the flag pressed only, not the 1s flag.
\<close>

theorem held_1000_counterexample:
  "button1PressedCount (run_calls (five_presses 0) (ClockButton_new 2 True)) = debounceCounter \<and>
   held_ms 1000 (run_calls (five_presses 0) (ClockButton_new 2 True)) = 1000 \<and>
   level_flags (checkButton 1000 0 (run_calls (five_presses 0) (ClockButton_new 2 True)))
     = [True, False, False, False]"
  by (simp add: eval_defs five_presses_def)

subsection \<open>The release tick\<close>

text \<open>
  C3 (as amended). When the counter is at the threshold and \<open>checkButton\<close> reads the pin
  as released, the release flags are recomputed: the flag of the highest level flag that
  is true is set and no other, so exactly one release flag is set when some level flag is
  true and none when no level flag is true; all level flags are cleared and the counter is
  reset to 0. Calling the same release accessor twice in a row makes the second call
  return false.
\<close>

theorem release_fires_highest_level:
  assumes "button1PressedCount b = debounceCounter" and "pinValue \<noteq> 0"
  shows "release_flags (checkButton now pinValue b) =
           [buttonPress b \<and> \<not> buttonPress1S b \<and> \<not> buttonPress2S b \<and> \<not> buttonPress8S b,
            buttonPress1S b \<and> \<not> buttonPress2S b \<and> \<not> buttonPress8S b,
            buttonPress2S b \<and> \<not> buttonPress8S b,
            buttonPress8S b] \<and>
         release_count (checkButton now pinValue b) =
           (if True \<in> set (level_flags b) then 1 else 0) \<and>
         level_flags (checkButton now pinValue b) = [False, False, False, False] \<and>
         button1PressedCount (checkButton now pinValue b) = 0 \<and>
         fst (isButtonPressedAndReleased (snd (isButtonPressedAndReleased c))) = False \<and>
         fst (isButtonPressedReleased1S (snd (isButtonPressedReleased1S c))) = False \<and>
         fst (isButtonPressedReleased2S (snd (isButtonPressedReleased2S c))) = False \<and>
         fst (isButtonPressedReleased8S (snd (isButtonPressedReleased8S c))) = False"
  using assms
  by (auto simp add: level_flags_def release_flags_def release_count_def count_true_simps
      checkButton_def checkButtonInternal_def Let_def
      isButtonPressedAndReleased_def isButtonPressedReleased1S_def
      isButtonPressedReleased2S_def isButtonPressedReleased8S_def)

theorem release_fires_highest_level_witness:
  "release_flags (checkButton 2600 1
      (run_calls (five_presses 0 @ [CheckButton 2500 0]) (ClockButton_new 2 True)))
     = [False, False, True, False] \<and>
   release_count (checkButton 2600 1
      (run_calls (five_presses 0 @ [CheckButton 2500 0]) (ClockButton_new 2 True))) = 1 \<and>
   fst (isButtonPressedReleased2S (checkButton 2600 1
      (run_calls (five_presses 0 @ [CheckButton 2500 0]) (ClockButton_new 2 True)))) = True \<and>
   fst (isButtonPressedReleased2S (snd (isButtonPressedReleased2S (checkButton 2600 1
      (run_calls (five_presses 0 @ [CheckButton 2500 0]) (ClockButton_new 2 True)))))) = False"
proof -
  let ?b = "run_calls (five_presses 0 @ [CheckButton 2500 0]) (ClockButton_new 2 True)"
  have c: "button1PressedCount ?b = debounceCounter"
    by (simp add: eval_defs five_presses_def)
  have p: "(1::int) \<noteq> 0" by simp
  have l: "level_flags ?b = [True, True, True, False]"
    by (simp add: eval_defs five_presses_def)
  have f: "buttonPress ?b" "buttonPress1S ?b" "buttonPress2S ?b" "\<not> buttonPress8S ?b"
    using l by (simp_all add: level_flags_def)
  show ?thesis
    using release_fires_highest_level [OF c p, of 2600 "checkButton 2600 1 ?b"] f
    by (simp add: l release_flags_def isButtonPressedReleased2S_def)
qed

text \<open>
  The claim C3 as stated fails when the pin is released on the tick right after the counter
  reached the threshold: the counter is at the threshold, yet no release flag is set.
\<close>

theorem release_without_level_counterexample:
  "button1PressedCount (run_calls (five_presses 0) (ClockButton_new 2 True)) = debounceCounter \<and>
   release_count (checkButton 10 1 (run_calls (five_presses 0) (ClockButton_new 2 True))) = 0"
  by (simp add: eval_defs five_presses_def)

subsection \<open>Invariants over all call sequences\<close>

text \<open>
  C9. Starting from the initial button state, after every sequence of \<open>checkButton\<close>,
  \<open>reset\<close> and accessor calls the debounce counter lies in 0..5, the level flags are
  nested (8s implies 2s implies 1s implies pressed) and at most one of the four release
  flags is set; at the threshold a further pressed tick leaves the counter at the
  threshold.
\<close>

theorem button_invariants:
  "counter_in_range (run_calls cs (ClockButton_new pin al)) \<and>
   levels_nested (run_calls cs (ClockButton_new pin al)) \<and>
   release_count (run_calls cs (ClockButton_new pin al)) \<le> 1 \<and>
   (button1PressedCount (run_calls cs (ClockButton_new pin al)) = debounceCounter \<longrightarrow>
      button1PressedCount (checkButton now 0 (run_calls cs (ClockButton_new pin al)))
        = debounceCounter)"
proof -
  have "button_inv (run_calls cs (ClockButton_new pin al))"
    by (rule button_inv_run [OF button_inv_new])
  moreover have "button1PressedCount b = debounceCounter \<Longrightarrow>
      button1PressedCount (checkButton now 0 b) = debounceCounter" for b
    by (simp add: checkButton_def checkButtonInternal_def Let_def)
  ultimately show ?thesis
    by (simp add: button_inv_def)
qed

theorem button_invariants_witness:
  "level_flags (run_calls (five_presses 0 @ [CheckButton 9000 0]) (ClockButton_new 2 True))
      = [True, True, True, True] \<and>
   levels_nested (run_calls (five_presses 0 @ [CheckButton 9000 0]) (ClockButton_new 2 True)) \<and>
   counter_in_range (run_calls (five_presses 0 @ [CheckButton 9000 0]) (ClockButton_new 2 True)) \<and>
   button1PressedCount (run_calls (five_presses 0 @ [CheckButton 9000 0]) (ClockButton_new 2 True))
      = debounceCounter \<and>
   button1PressedCount (checkButton 9001 0
       (run_calls (five_presses 0 @ [CheckButton 9000 0]) (ClockButton_new 2 True)))
      = debounceCounter \<and>
   release_count (run_calls (five_presses 0 @ [CheckButton 9000 0, CheckButton 9001 1])
       (ClockButton_new 2 True)) = 1"
proof -
  let ?cs = "five_presses 0 @ [CheckButton 9000 0]"
  have c: "button1PressedCount (run_calls ?cs (ClockButton_new 2 True)) = debounceCounter"
    by (simp add: eval_defs five_presses_def)
  have l: "level_flags (run_calls ?cs (ClockButton_new 2 True)) = [True, True, True, True]"
    by (simp add: eval_defs five_presses_def)
  have r: "release_count (run_calls (five_presses 0 @ [CheckButton 9000 0, CheckButton 9001 1])
       (ClockButton_new 2 True)) = 1"
    by (simp add: eval_defs five_presses_def)
  show ?thesis
    using button_invariants [of ?cs 2 True 9001] c l r by simp
qed

subsection \<open>The tick that reaches the threshold\<close>

text \<open>
  C10. On the \<open>checkButton\<close> tick that takes the counter of a reachable state to the
  threshold, only the press-start timestamp is recorded (besides the counter) and no
  level flag is set: \<open>isButtonPressedNow\<close> is true and \<open>isButtonPressed\<close> is false, and
  they stay so under accessor calls, until the next \<open>checkButton\<close> with the pin pressed
  sets the flag pressed. If instead the next tick reads the pin as released, no release
  flag is set.
\<close>

theorem threshold_tick_sets_no_level:
  assumes "b = run_calls cs (ClockButton_new pin al)"
    and "button1PressedCount b = debounceCounter - 1"
    and "b1 = checkButton now 0 b"
    and "list_all is_accessor acs"
    and "b2 = run_calls acs b1"
    and "pinValue \<noteq> 0"
  shows "b1 = b\<lparr>buttonWasReleased := False, button1PressedCount := debounceCounter,
                button1PressStartMillis := now\<rparr> \<and>
         level_flags b1 = [False, False, False, False] \<and>
         isButtonPressedNow b1 \<and> \<not> isButtonPressed b1 \<and>
         isButtonPressedNow b2 \<and> \<not> isButtonPressed b2 \<and>
         isButtonPressed (checkButton now' 0 b2) \<and>
         release_flags (checkButton now' pinValue b2) = [False, False, False, False] \<and>
         release_count (checkButton now' pinValue b2) = 0"
proof -
  have "button_inv b"
    unfolding assms(1) by (rule button_inv_run [OF button_inv_new])
  then have lb: "level_flags b = [False, False, False, False]"
    using assms(2) by (simp add: button_inv_def no_level_below_threshold_def debounceCounter_def)
  have b1: "b1 = b\<lparr>buttonWasReleased := False, button1PressedCount := debounceCounter,
                button1PressStartMillis := now\<rparr>"
    using assms(2,3) by (simp add: checkButton_def checkButtonInternal_def Let_def debounceCounter_def)
  have l1: "level_flags b1 = [False, False, False, False]"
    using lb by (simp add: b1 level_flags_def)
  have c1: "button1PressedCount b1 = debounceCounter"
    by (simp add: b1)
  have k: "button1PressedCount b2 = debounceCounter" "level_flags b2 = [False, False, False, False]"
    using accessors_keep_press [OF assms(4), of b1] c1 l1 assms(5) by simp_all
  have p: "isButtonPressed (checkButton now' 0 b2)"
    using k(1) by (simp add: isButtonPressed_def checkButton_def checkButtonInternal_def Let_def)
  have r: "release_flags (checkButton now' pinValue b2) = [False, False, False, False]"
    using k assms(6)
    by (simp add: release_flags_def level_flags_def checkButton_def checkButtonInternal_def Let_def)
  have rc: "release_count (checkButton now' pinValue b2) = 0"
    by (simp add: release_count_def r count_true_simps)
  show ?thesis
    using b1 l1 c1 k p r rc
    by (simp add: isButtonPressedNow_def isButtonPressed_def level_flags_def)
qed

theorem threshold_tick_sets_no_level_witness:
  "isButtonPressedNow (checkButton 7 0
       (run_calls [CheckButton 1 0, CheckButton 2 0, CheckButton 3 0, CheckButton 4 0]
          (ClockButton_new 2 True))) \<and>
   \<not> isButtonPressed (run_calls [IsButtonPressed, IsButtonPressedAndReleased] (checkButton 7 0
       (run_calls [CheckButton 1 0, CheckButton 2 0, CheckButton 3 0, CheckButton 4 0]
          (ClockButton_new 2 True)))) \<and>
   isButtonPressed (checkButton 8 0 (run_calls [IsButtonPressed, IsButtonPressedAndReleased]
       (checkButton 7 0
       (run_calls [CheckButton 1 0, CheckButton 2 0, CheckButton 3 0, CheckButton 4 0]
          (ClockButton_new 2 True))))) \<and>
   release_count (checkButton 8 1 (run_calls [IsButtonPressed, IsButtonPressedAndReleased]
       (checkButton 7 0
       (run_calls [CheckButton 1 0, CheckButton 2 0, CheckButton 3 0, CheckButton 4 0]
          (ClockButton_new 2 True))))) = 0"
proof -
  let ?cs = "[CheckButton 1 0, CheckButton 2 0, CheckButton 3 0, CheckButton 4 0]"
  let ?b = "run_calls ?cs (ClockButton_new 2 True)"
  let ?acs = "[IsButtonPressed, IsButtonPressedAndReleased]"
  have c: "button1PressedCount ?b = debounceCounter - 1"
    by (simp add: eval_defs)
  have a: "list_all is_accessor ?acs" by simp
  have p: "(1::int) \<noteq> 0" by simp
  show ?thesis
    using threshold_tick_sets_no_level [OF refl c refl a refl p, of 7 8]
    by blast
qed

section \<open>Properties of Transition\<close>

declare scroll_loop.simps [simp del]
declare scramble_loop.simps [simp del]

subsection \<open>Arithmetic of the machine types\<close>

lemma wrap16_id: "- 32768 \<le> x \<Longrightarrow> x \<le> 32767 \<Longrightarrow> wrap16 x = x"
  unfolding wrap16_def
  by (simp add: sint_sbintrunc' signed_take_bit_int_eq_self)

lemma int_of_ulong_range: "- 32768 \<le> int_of_ulong w \<and> int_of_ulong w \<le> 32767"
  unfolding int_of_ulong_def
  using sint_ge [of "ucast w :: 16 word"] sint_lt [of "ucast w :: 16 word"] by simp

lemma smod_nonneg: "0 \<le> a \<Longrightarrow> 0 < d \<Longrightarrow> (a::int) smod d = a mod d"
  by (simp add: smod_int_alt_def sgn_if)

lemma sdiv_nonneg: "0 \<le> a \<Longrightarrow> 0 < d \<Longrightarrow> (a::int) sdiv d = a div d"
  by (simp add: signed_divide_int_def sgn_if)

lemma div_below_six:
  assumes "0 < (d::int)" and "x < 6 * d"
  shows "x div d \<le> 5"
proof (rule ccontr)
  assume "\<not> x div d \<le> 5"
  then have "6 \<le> x div d" by simp
  then have "d * 6 \<le> d * (x div d)"
    using assms(1) by (intro mult_left_mono) simp_all
  moreover have "d * (x div d) + x mod d = x"
    by (rule mult_div_mod_eq)
  moreover have "0 \<le> x mod d"
    using assms(1) by simp
  ultimately show False using assms(2) by linarith
qed

lemma byte_of_int_minus:
  "byte_of_int (- 1) = 255" "byte_of_int (- 2) = 254"
  by (simp_all add: byte_of_int_def)

lemma uint_byte_of_int: "0 \<le> x \<Longrightarrow> x \<le> 255 \<Longrightarrow> uint (byte_of_int x) = x"
  by (simp add: byte_of_int_def uint_word_of_int take_bit_eq_mod)

lemma uint_succ_byte: "i < 6 \<Longrightarrow> uint (i + 1 :: byte) = uint i + 1"
  by (simp add: word_less_def uint_word_ariths take_bit_eq_mod)

lemma mod10_byte: "unat (ucast (w mod 10 :: ulong) :: byte) \<le> 9"
proof -
  have a: "unat (w mod 10) < 10"
    by (simp add: unat_mod)
  have "unat (ucast (w mod 10 :: ulong) :: byte) = unat (w mod 10) mod 256"
    by (simp add: unsigned_ucast_eq take_bit_eq_mod)
  also have "\<dots> = unat (w mod 10)"
    using a by simp
  finally show ?thesis using a by simp
qed

lemma ramp_defined: "d \<noteq> 0 \<Longrightarrow> \<exists>r. ramp a d = Some r"
  by (simp add: ramp_def mod16_def div16_def)

lemma neg_ramp_defined: "d \<noteq> 0 \<Longrightarrow> \<exists>r. neg_ramp a d = Some r"
  by (simp add: neg_ramp_def mod16_def div16_def)

lemma ramp_bounds:
  assumes "0 \<le> a" "a \<le> 32767" "0 < d" "d \<le> 5462"
  shows "\<exists>r. ramp a d = Some r \<and> 0 \<le> r \<and> r \<le> 5"
proof -
  let ?m = "a mod d"
  have m: "0 \<le> ?m" "?m < d" using assms by simp_all
  have m1: "wrap16 (a smod d) = ?m"
    using assms m by (simp add: smod_nonneg wrap16_id)
  have "- 32768 \<le> ?m * 6" "?m * 6 \<le> 32767"
    using m assms by linarith+
  then have m6: "mul16 ?m 6 = ?m * 6"
    unfolding mul16_def by (rule wrap16_id)
  have q: "0 \<le> ?m * 6 div d" "?m * 6 div d \<le> 5"
  proof -
    show "0 \<le> ?m * 6 div d" using m assms by (simp add: pos_imp_zdiv_nonneg_iff)
    have "?m * 6 < 6 * d" using m by simp
    then show "?m * 6 div d \<le> 5" using assms(3) by (intro div_below_six)
  qed
  have "ramp a d = Some (?m * 6 div d)"
    using assms m q by (simp add: ramp_def mod16_def div16_def m1 m6 sdiv_nonneg wrap16_id)
  then show ?thesis using q by simp
qed

subsection \<open>What scroll computes\<close>

lemma scroll_step_spec:
  assumes "0 \<le> i" and "i < 6" and "0 \<le> c" and "length copy = 6" and "six_slots g"
  shows "scroll_step c 0 1 copy i g =
           Some (g\<lparr>displayType :=
                     (if i < c then (displayType g)[nat i := BLANKED] else displayType g),
                   NumberArray :=
                     (if c \<le> i then (NumberArray g)[nat i := copy ! nat (i - c)]
                      else NumberArray g)\<rparr>)"
  using assms
  by (simp add: scroll_step_def array_set_def array_get_def six_slots_def)

lemma scroll_loop_spec:
  assumes "length copy = 6" and "six_slots g"
  shows "\<exists>ns ds. scroll_loop i count 0 1 copy g = Some (g\<lparr>NumberArray := ns, displayType := ds\<rparr>) \<and>
           length ns = 6 \<and> length ds = 6 \<and>
           (\<forall>k < 6. ds ! k = (if uint i \<le> int k \<and> int k < uint count then BLANKED
                               else displayType g ! k)) \<and>
           (\<forall>k < 6. ns ! k = (if uint i \<le> int k \<and> uint count \<le> int k
                               then copy ! (k - unat count) else NumberArray g ! k))"
  using assms
proof (induction i count "0 :: byte" "1 :: byte" copy g rule: scroll_loop.induct)
  case (1 i count copy g)
  show ?case
  proof (cases "i < 6")
    case False
    then have "scroll_loop i count 0 1 copy g =
        Some (g\<lparr>NumberArray := NumberArray g, displayType := displayType g\<rparr>)"
      by (simp add: scroll_loop.simps [of i count 0 1 copy g])
    moreover have "6 \<le> uint i"
      using False by (simp add: word_less_def)
    ultimately have "scroll_loop i count 0 1 copy g =
          Some (g\<lparr>NumberArray := NumberArray g, displayType := displayType g\<rparr>) \<and>
        length (NumberArray g) = 6 \<and> length (displayType g) = 6 \<and>
        (\<forall>k < 6. displayType g ! k =
            (if uint i \<le> int k \<and> int k < uint count then BLANKED else displayType g ! k)) \<and>
        (\<forall>k < 6. NumberArray g ! k =
            (if uint i \<le> int k \<and> uint count \<le> int k
             then copy ! (k - unat count) else NumberArray g ! k))"
      using "1.prems" by (simp add: six_slots_def)
    then show ?thesis by blast
  next
    case True
    then have i6: "uint i < 6" by (simp add: word_less_def)
    let ?ds = "if uint i < uint count then (displayType g)[nat (uint i) := BLANKED]
               else displayType g"
    let ?ns = "if uint count \<le> uint i
               then (NumberArray g)[nat (uint i) := copy ! nat (uint i - uint count)]
               else NumberArray g"
    let ?g = "g\<lparr>displayType := ?ds, NumberArray := ?ns\<rparr>"
    have step: "scroll_step (uint count) (uint (0::byte)) (uint (1::byte)) copy (uint i) g = Some ?g"
      using scroll_step_spec [of "uint i" "uint count" copy g] i6 "1.prems" by simp
    have six: "six_slots ?g"
      using "1.prems" by (simp add: six_slots_def)
    obtain ns ds where r:
      "scroll_loop (i + 1) count 0 1 copy ?g = Some (?g\<lparr>NumberArray := ns, displayType := ds\<rparr>)"
      "length ns = 6" "length ds = 6"
      "\<forall>k < 6. ds ! k = (if uint (i + 1) \<le> int k \<and> int k < uint count then BLANKED
                               else displayType ?g ! k)"
      "\<forall>k < 6. ns ! k = (if uint (i + 1) \<le> int k \<and> uint count \<le> int k
                               then copy ! (k - unat count) else NumberArray ?g ! k)"
      using "1.hyps" [OF True step "1.prems"(1) six] by blast
    have run: "scroll_loop i count 0 1 copy g = Some (g\<lparr>NumberArray := ns, displayType := ds\<rparr>)"
      using True step r(1) by (simp add: scroll_loop.simps [of i count 0 1 copy g])
    have suc: "uint (i + 1) = uint i + 1"
      using True by (rule uint_succ_byte)
    have lens: "length (displayType g) = 6" "length (NumberArray g) = 6"
      using "1.prems" by (simp_all add: six_slots_def)
    have d: "ds ! k = (if uint i \<le> int k \<and> int k < uint count then BLANKED
                       else displayType g ! k)" if "k < 6" for k
    proof (cases "int k = uint i")
      case True
      then have "k = nat (uint i)" by linarith
      then show ?thesis
        using r(4) that suc lens by simp
    next
      case False
      then have "nat (uint i) \<noteq> k" by auto
      then show ?thesis
        using r(4) that suc False by auto
    qed
    have n: "ns ! k = (if uint i \<le> int k \<and> uint count \<le> int k
                       then copy ! (k - unat count) else NumberArray g ! k)" if "k < 6" for k
    proof (cases "int k = uint i")
      case True
      then have k: "k = nat (uint i)" by linarith
      have "nat (uint i - uint count) = k - unat count"
        using k by (simp add: nat_diff_distrib')
      then show ?thesis
        using r(5) that suc lens k by simp
    next
      case False
      then have "nat (uint i) \<noteq> k" by auto
      then show ?thesis
        using r(5) that suc False by auto
    qed
    show ?thesis
      using run r(2,3) d n by blast
  qed
qed

text \<open>
  For every byte \<open>count\<close> and six-slot buffers, \<open>scroll\<close> returns: slot \<open>k\<close> is blanked
  when \<open>k < count\<close>, and takes the digit of slot \<open>k - count\<close> when \<open>count \<le> k\<close>.
\<close>

lemma scroll_spec:
  assumes "six_slots g"
  shows "\<exists>ns ds. scroll count g = Some (uint count, g\<lparr>NumberArray := ns, displayType := ds\<rparr>) \<and>
           length ns = 6 \<and> length ds = 6 \<and>
           (\<forall>k < 6. ds ! k = (if int k < uint count then BLANKED else displayType g ! k)) \<and>
           (\<forall>k < 6. ns ! k = (if uint count \<le> int k then NumberArray g ! (k - unat count)
                               else NumberArray g ! k))"
proof -
  have copy: "memcpy6 [0, 0, 0, 0, 0, 0] (NumberArray g) = NumberArray g"
    using assms by (simp add: memcpy6_def six_slots_def)
  have len: "length (NumberArray g) = 6"
    using assms by (simp add: six_slots_def)
  obtain ns ds where r:
    "scroll_loop 0 count 0 1 (NumberArray g) g = Some (g\<lparr>NumberArray := ns, displayType := ds\<rparr>)"
    "length ns = 6" "length ds = 6"
    "\<forall>k < 6. ds ! k = (if uint (0::byte) \<le> int k \<and> int k < uint count then BLANKED
                               else displayType g ! k)"
    "\<forall>k < 6. ns ! k = (if uint (0::byte) \<le> int k \<and> uint count \<le> int k
                               then NumberArray g ! (k - unat count) else NumberArray g ! k)"
    using scroll_loop_spec [OF len assms, of 0 count] by blast
  have e: "scroll count g = Some (uint count, g\<lparr>NumberArray := ns, displayType := ds\<rparr>)"
    using r(1) by (simp add: scroll_def copy)
  have d: "\<forall>k < 6. ds ! k = (if int k < uint count then BLANKED else displayType g ! k)"
    using r(4) by simp
  have n: "\<forall>k < 6. ns ! k = (if uint count \<le> int k then NumberArray g ! (k - unat count)
                               else NumberArray g ! k)"
    using r(5) by simp
  show ?thesis
    using e r(2,3) d n by blast
qed

lemma scroll_defined: "six_slots g \<Longrightarrow> \<exists>c g'. scroll count g = Some (c, g')"
  using scroll_spec [of g count] by blast

text \<open>
  In closed form: a count of at most 6 shifts the digits by \<open>count\<close> slots towards the
  higher indices and blanks the first \<open>count\<close> slots; a count of 6 or more, which
  includes the bytes 250 to 255 that the counts -6 to -1 become, blanks all six slots and
  moves no digit.
\<close>

lemma scroll_large_count:
  assumes "six_slots g" and "6 \<le> uint count"
  shows "scroll count g = Some (uint count, g\<lparr>displayType := replicate 6 BLANKED\<rparr>)"
proof -
  obtain ns ds where r:
    "scroll count g = Some (uint count, g\<lparr>NumberArray := ns, displayType := ds\<rparr>)"
    "length ns = 6" "length ds = 6"
    "\<forall>k < 6. ds ! k = (if int k < uint count then BLANKED else displayType g ! k)"
    "\<forall>k < 6. ns ! k = (if uint count \<le> int k then NumberArray g ! (k - unat count)
                         else NumberArray g ! k)"
    using scroll_spec [OF assms(1), of count] by blast
  have "ns = NumberArray g"
    using r(2,5) assms by (intro nth_equalityI) (auto simp add: six_slots_def)
  moreover have "ds = replicate 6 BLANKED"
    using r(3,4) assms(2) by (intro nth_equalityI) auto
  ultimately show ?thesis
    using r(1) by simp
qed

lemma scroll_negative_count:
  assumes "six_slots g" and "- 6 \<le> c" and "c \<le> - 1"
  shows "scroll (byte_of_int c) g = Some (256 + c, g\<lparr>displayType := replicate 6 BLANKED\<rparr>)"
proof -
  have "uint (byte_of_int c) = 256 + c"
    using assms(2,3) by (simp add: byte_of_int_def uint_word_of_int take_bit_eq_mod) presburger
  then show ?thesis
    using scroll_large_count [OF assms(1), of "byte_of_int c"] assms(2) by simp
qed

lemma scroll_small_count:
  assumes "six_slots g" and "uint count \<le> 6"
  shows "scroll count g =
           Some (uint count,
                 g\<lparr>NumberArray := take (unat count) (NumberArray g)
                                     @ take (6 - unat count) (NumberArray g),
                   displayType := replicate (unat count) BLANKED
                                     @ drop (unat count) (displayType g)\<rparr>)"
proof -
  obtain ns ds where r:
    "scroll count g = Some (uint count, g\<lparr>NumberArray := ns, displayType := ds\<rparr>)"
    "length ns = 6" "length ds = 6"
    "\<forall>k < 6. ds ! k = (if int k < uint count then BLANKED else displayType g ! k)"
    "\<forall>k < 6. ns ! k = (if uint count \<le> int k then NumberArray g ! (k - unat count)
                         else NumberArray g ! k)"
    using scroll_spec [OF assms(1), of count] by blast
  have lt: "(int k < uint count) = (k < unat count)" for k
    by (metis uint_nat of_nat_less_iff)
  have le: "(uint count \<le> int k) = (unat count \<le> k)" for k
    by (metis uint_nat of_nat_le_iff)
  have c: "unat count \<le> 6"
    using assms(2) le [of 6] by simp
  have len: "length (NumberArray g) = 6" "length (displayType g) = 6"
    using assms(1) by (simp_all add: six_slots_def)
  have d: "\<forall>k < 6. ds ! k = (if k < unat count then BLANKED else displayType g ! k)"
    using r(4) by (simp add: lt)
  have n: "\<forall>k < 6. ns ! k = (if unat count \<le> k then NumberArray g ! (k - unat count)
                         else NumberArray g ! k)"
    using r(5) by (simp add: le)
  have "ns = take (unat count) (NumberArray g) @ take (6 - unat count) (NumberArray g)"
    using r(2) n c len by (intro nth_equalityI) (auto simp add: nth_append)
  moreover have "ds = replicate (unat count) BLANKED @ drop (unat count) (displayType g)"
    using r(3) d c len by (intro nth_equalityI) (auto simp add: nth_append)
  ultimately show ?thesis
    using r(1) by simp
qed

subsection \<open>What scramble computes\<close>

lemma scramble_digit_bound: "unat (scramble_digit e i) \<le> 9"
  unfolding scramble_digit_def byte_of_ulong_def by (rule mod10_byte)

lemma scramble_loop_spec:
  assumes "0 \<le> i" and "en \<le> int (length (NumberArray g))"
  shows "\<exists>xs. scramble_loop e i en g = Some (g\<lparr>NumberArray := xs\<rparr>) \<and>
           length xs = length (NumberArray g) \<and>
           (\<forall>k < length xs. xs ! k =
               (if i \<le> int k \<and> int k < en then scramble_digit e (int k) else NumberArray g ! k))"
  using assms
proof (induction e i en g rule: scramble_loop.induct)
  case (1 msCount i end' g)
  show ?case
  proof (cases "i < end'")
    case False
    then have "scramble_loop msCount i end' g = Some (g\<lparr>NumberArray := NumberArray g\<rparr>)"
      by (simp add: scramble_loop.simps [of msCount i end' g])
    moreover have "\<forall>k < length (NumberArray g). NumberArray g ! k =
        (if i \<le> int k \<and> int k < end' then scramble_digit msCount (int k) else NumberArray g ! k)"
      using False by auto
    ultimately show ?thesis by blast
  next
    case True
    let ?n = "(NumberArray g)[nat i := scramble_digit msCount i]"
    let ?g = "g\<lparr>NumberArray := ?n\<rparr>"
    have set: "array_set (NumberArray g) i
        (byte_of_ulong (hash (ulong_of_int (msCount sdiv 20 + i)) mod 10)) = Some ?n"
      using True "1.prems" by (simp add: array_set_def scramble_digit_def)
    have "\<exists>xs. scramble_loop msCount (i + 1) end' ?g = Some (?g\<lparr>NumberArray := xs\<rparr>) \<and>
           length xs = length (NumberArray ?g) \<and>
           (\<forall>k < length xs. xs ! k =
               (if i + 1 \<le> int k \<and> int k < end' then scramble_digit msCount (int k)
                else NumberArray ?g ! k))"
      using "1.IH" [OF True set] "1.prems" by simp
    then obtain xs where xs: "scramble_loop msCount (i + 1) end' ?g = Some (?g\<lparr>NumberArray := xs\<rparr>)"
      "length xs = length (NumberArray g)"
      "\<forall>k < length xs. xs ! k =
               (if i + 1 \<le> int k \<and> int k < end' then scramble_digit msCount (int k)
                else ?n ! k)"
      by auto
    have run: "scramble_loop msCount i end' g = Some (g\<lparr>NumberArray := xs\<rparr>)"
      using True set xs(1) by (simp add: scramble_loop.simps [of msCount i end' g])
    have "xs ! k = (if i \<le> int k \<and> int k < end' then scramble_digit msCount (int k)
                    else NumberArray g ! k)" if "k < length xs" for k
    proof (cases "int k = i")
      case True
      then have "k = nat i" by simp
      then show ?thesis
        using xs(2,3) that \<open>i < end'\<close> "1.prems" by simp
    next
      case False
      then have "nat i \<noteq> k" using "1.prems"(1) by auto
      then show ?thesis
        using xs(3) that False by auto
    qed
    then show ?thesis
      using run xs(2) by blast
  qed
qed

lemma scramble_spec:
  assumes "uint end' \<le> 6" and "length (NumberArray g) = 6"
  shows "\<exists>xs. scramble e start' end' g = Some (uint start', g\<lparr>NumberArray := xs\<rparr>) \<and>
           length xs = 6 \<and>
           (\<forall>k < 6. xs ! k =
               (if uint start' \<le> int k \<and> int k < uint end' then scramble_digit e (int k)
                else NumberArray g ! k))"
proof -
  have "uint end' \<le> int (length (NumberArray g))"
    using assms by simp
  from scramble_loop_spec [OF _ this, of "uint start'" e]
  obtain xs where xs: "scramble_loop e (uint start') (uint end') g = Some (g\<lparr>NumberArray := xs\<rparr>)"
     "length xs = length (NumberArray g)"
     "\<forall>k < length xs. xs ! k =
        (if uint start' \<le> int k \<and> int k < uint end' then scramble_digit e (int k)
         else NumberArray g ! k)"
    by auto
  have "scramble e start' end' g = Some (uint start', g\<lparr>NumberArray := xs\<rparr>)"
    using xs(1) by (simp add: scramble_def)
  then show ?thesis
    using xs(2,3) assms(2) by auto
qed

subsection \<open>The steppers return, and return whether the session is running\<close>

lemma load_six_slots:
  assumes "six_slots g" and "six_slot_members t"
  shows "six_slots (loadRegularValues t g)" and "six_slots (loadAlternateValues t g)"
    and "six_slots (restoreCurrentDisplayType t g)"
  using assms
  by (simp_all add: six_slots_def six_slot_members_def loadRegularValues_def
      loadAlternateValues_def restoreCurrentDisplayType_def memcpy6_def)

lemma ramp_scroll_phase:
  assumes "d \<noteq> 0" and "six_slots g"
  shows "\<exists>g'. do { r \<leftarrow> ramp a d; (c, g') \<leftarrow> scroll (f r) g; Some (True, g') } = Some (True, g')"
proof -
  obtain r where r: "ramp a d = Some r"
    using ramp_defined [OF assms(1)] by blast
  obtain c g' where "scroll (f r) g = Some (c, g')"
    using scroll_defined [OF assms(2)] by blast
  then show ?thesis
    using r by simp
qed

lemma neg_ramp_scroll_phase:
  assumes "d \<noteq> 0" and "six_slots g"
  shows "\<exists>g'. do { r \<leftarrow> neg_ramp a d; (c, g') \<leftarrow> scroll (f r) g; Some (True, g') } = Some (True, g')"
proof -
  obtain r where r: "neg_ramp a d = Some r"
    using neg_ramp_defined [OF assms(1)] by blast
  obtain c g' where "scroll (f r) g = Some (c, g')"
    using scroll_defined [OF assms(2)] by blast
  then show ?thesis
    using r by simp
qed

lemma ramp_scramble_to_six:
  assumes "d \<noteq> 0" and "six_slots g"
  shows "\<exists>g'. do { r \<leftarrow> ramp a d; (c, g') \<leftarrow> scramble e (f r) 6 g; Some (True, g') }
            = Some (True, g')"
proof -
  obtain r where r: "ramp a d = Some r"
    using ramp_defined [OF assms(1)] by blast
  have "uint (6::byte) \<le> 6" by simp
  moreover have "length (NumberArray g) = 6"
    using assms(2) by (simp add: six_slots_def)
  ultimately obtain xs where "scramble e (f r) 6 g = Some (uint (f r), g\<lparr>NumberArray := xs\<rparr>)"
    using scramble_spec [of 6 g e "f r"] by blast
  then show ?thesis
    using r by simp
qed

lemma ramp_scramble_from_zero:
  assumes "0 \<le> a" and "a \<le> 32767" and "0 < d" and "d \<le> 5462" and "six_slots g"
    and "\<And>r. 0 \<le> r \<Longrightarrow> r \<le> 5 \<Longrightarrow> uint (f r) \<le> 6"
  shows "\<exists>g'. do { r \<leftarrow> ramp a d; (c, g') \<leftarrow> scramble e 0 (f r) g; Some (True, g') }
            = Some (True, g')"
proof -
  obtain r where r: "ramp a d = Some r" "0 \<le> r" "r \<le> 5"
    using ramp_bounds [OF assms(1-4)] by blast
  have "uint (f r) \<le> 6"
    using r assms(6) by simp
  moreover have "length (NumberArray g) = 6"
    using assms(5) by (simp add: six_slots_def)
  ultimately obtain xs where "scramble e 0 (f r) g = Some (uint (0::byte), g\<lparr>NumberArray := xs\<rparr>)"
    using scramble_spec [of "f r" g e 0] by blast
  then show ?thesis
    using r by simp
qed

lemma window_end_bytes:
  assumes "0 \<le> r" and "r \<le> 5"
  shows "uint (byte_of_int (sub16 5 r)) \<le> 6" and "uint (byte_of_int (add16 r 1)) \<le> 6"
proof -
  have "sub16 5 r = 5 - r" "add16 r 1 = r + 1"
    using assms by (simp_all add: sub16_def add16_def wrap16_id)
  then show "uint (byte_of_int (sub16 5 r)) \<le> 6" and "uint (byte_of_int (add16 r 1)) \<le> 6"
    using assms by (simp_all add: uint_byte_of_int)
qed

lemma valid_durations_sums:
  assumes "valid_durations t"
  shows "mul16 (t_effectInDuration t) 2 = 2 * t_effectInDuration t"
    and "mul16 (t_effectOutDuration t) 2 = 2 * t_effectOutDuration t"
    and "add16 (2 * t_effectInDuration t) (t_holdDuration t)
           = 2 * t_effectInDuration t + t_holdDuration t"
    and "add16 (2 * t_effectInDuration t + t_holdDuration t) (t_effectOutDuration t)
           = 2 * t_effectInDuration t + t_holdDuration t + t_effectOutDuration t"
    and "add16 (2 * t_effectInDuration t + t_holdDuration t) (2 * t_effectOutDuration t)
           = 2 * t_effectInDuration t + t_holdDuration t + 2 * t_effectOutDuration t"
  using assms
  by (simp_all add: valid_durations_def mul16_def add16_def wrap16_id)

lemma doublings_fit_products:
  assumes "doublings_fit t"
  shows "mul16 (t_effectInDuration t) 2 = 2 * t_effectInDuration t"
    and "mul16 (t_effectOutDuration t) 2 = 2 * t_effectOutDuration t"
  using assms
  by (simp_all add: doublings_fit_def mul16_def wrap16_id)

lemma scrollMsg_returns:
  assumes "t_effectInDuration t \<noteq> 0" and "t_effectOutDuration t \<noteq> 0"
    and "six_slots g" and "six_slot_members t"
  shows "\<exists>g'. scrollMsg now t g = Some (now < t_end t, g')"
proof (cases "now < t_end t")
  case False
  then show ?thesis by (simp add: scrollMsg_def)
next
  case True
  note nz = assms(1,2)
  note six = load_six_slots [OF assms(3,4)]
  show ?thesis
    unfolding scrollMsg_def Let_def
    using True
    by (auto intro!: ramp_scroll_phase neg_ramp_scroll_phase nz six)
qed

lemma scrambleMsg_returns:
  assumes "valid_durations t" and "six_slots g" and "six_slot_members t"
  shows "\<exists>g'. scrambleMsg now t g = Some (now < t_end t, g')"
proof (cases "now < t_end t")
  case False
  then show ?thesis by (simp add: scrambleMsg_def)
next
  case True
  define ms where "ms = int_of_ulong (now - t_started t)"
  have v: "0 < t_effectInDuration t" "t_effectInDuration t \<le> 5462"
    "0 < t_effectOutDuration t" "t_effectOutDuration t \<le> 5462" "0 \<le> t_holdDuration t"
    using assms(1) by (simp_all add: valid_durations_def)
  have nz: "t_effectInDuration t \<noteq> 0" "t_effectOutDuration t \<noteq> 0"
    using v by simp_all
  have ms: "- 32768 \<le> ms" "ms \<le> 32767"
    using int_of_ulong_range [of "now - t_started t"] by (simp_all add: ms_def)
  note six = load_six_slots [OF assms(2,3)]
  note sums = valid_durations_sums [OF assms(1)]
  have held: "sub16 ms (t_holdDuration t) = ms - t_holdDuration t"
    if "2 * t_effectInDuration t + t_holdDuration t \<le> ms"
    using that ms v by (simp add: sub16_def wrap16_id)
  have p2: "\<exists>g'. do { r \<leftarrow> ramp ms (t_effectInDuration t);
                      (c, g') \<leftarrow> scramble ms 0 (byte_of_int (sub16 5 r)) (loadAlternateValues t g);
                      Some (True, g') } = Some (True, g')"
    if "\<not> ms < t_effectInDuration t"
    using that ms v six by (intro ramp_scramble_from_zero window_end_bytes) simp_all
  have p4: "\<exists>g'. do { r \<leftarrow> ramp (sub16 ms (t_holdDuration t)) (t_effectOutDuration t);
                      (c, g') \<leftarrow> scramble ms 0 (byte_of_int (add16 r 1)) (loadAlternateValues t g);
                      Some (True, g') } = Some (True, g')"
    if "\<not> ms < 2 * t_effectInDuration t + t_holdDuration t"
    using that ms v six held by (intro ramp_scramble_from_zero window_end_bytes) simp_all
  show ?thesis
    unfolding scrambleMsg_def Let_def ms_def [symmetric]
    using True p2 p4
    by (auto simp add: sums intro!: ramp_scramble_to_six nz six)
qed

lemma scrollInScrambleOut_returns:
  assumes "valid_durations t" and "six_slots g" and "six_slot_members t"
  shows "\<exists>g'. scrollInScrambleOut now t g = Some (now < t_end t, g')"
proof (cases "now < t_end t")
  case False
  then show ?thesis by (simp add: scrollInScrambleOut_def)
next
  case True
  define ms where "ms = int_of_ulong (now - t_started t)"
  have v: "0 < t_effectInDuration t" "t_effectInDuration t \<le> 5462"
    "0 < t_effectOutDuration t" "t_effectOutDuration t \<le> 5462" "0 \<le> t_holdDuration t"
    using assms(1) by (simp_all add: valid_durations_def)
  have nz: "t_effectInDuration t \<noteq> 0" "t_effectOutDuration t \<noteq> 0"
    using v by simp_all
  have ms: "- 32768 \<le> ms" "ms \<le> 32767"
    using int_of_ulong_range [of "now - t_started t"] by (simp_all add: ms_def)
  note six = load_six_slots [OF assms(2,3)]
  have six': "six_slots (loadAlternateValues t (restoreCurrentDisplayType t g))"
    using six(3) assms(3) by (rule load_six_slots(2))
  note sums = valid_durations_sums [OF assms(1)]
  have held: "sub16 ms (t_holdDuration t) = ms - t_holdDuration t"
    if "2 * t_effectInDuration t + t_holdDuration t \<le> ms"
    using that ms v by (simp add: sub16_def wrap16_id)
  have p4: "\<exists>g'. do { r \<leftarrow> ramp (sub16 ms (t_holdDuration t)) (t_effectOutDuration t);
                      (c, g') \<leftarrow> scramble ms 0 (byte_of_int (add16 r 1)) (loadAlternateValues t g);
                      Some (True, g') } = Some (True, g')"
    if "\<not> ms < 2 * t_effectInDuration t + t_holdDuration t"
    using that ms v six held by (intro ramp_scramble_from_zero window_end_bytes) simp_all
  show ?thesis
    unfolding scrollInScrambleOut_def Let_def ms_def [symmetric]
    using True p4
    by (auto simp add: sums intro!: ramp_scramble_to_six ramp_scroll_phase neg_ramp_scroll_phase
        nz six six')
qed

text \<open>Whatever the durations: a stepper that returns, returns whether the session runs.\<close>

lemma scrollMsg_result:
  "scrollMsg now t g = Some (b, g') \<Longrightarrow> b = (now < t_end t)"
  by (auto simp add: scrollMsg_def Let_def split: if_splits Option.bind_splits prod.splits)

lemma scrambleMsg_result:
  "scrambleMsg now t g = Some (b, g') \<Longrightarrow> b = (now < t_end t)"
  by (auto simp add: scrambleMsg_def Let_def split: if_splits Option.bind_splits prod.splits)

lemma scrollInScrambleOut_result:
  "scrollInScrambleOut now t g = Some (b, g') \<Longrightarrow> b = (now < t_end t)"
  by (auto simp add: scrollInScrambleOut_def Let_def split: if_splits Option.bind_splits prod.splits)

subsection \<open>start\<close>

lemma start_begins_session:
  assumes "t_end t < now"
  shows "start now t g =
           (t\<lparr>t_started := now,
              t_end := now + ulong_of_int (mul16 (t_effectInDuration t) 2)
                         + ulong_of_int (t_holdDuration t)
                         + ulong_of_int (mul16 (t_effectOutDuration t) 2),
              t_savedDisplayType := memcpy6 (t_savedDisplayType t) (displayType g),
              t_savedScrollback := scrollback g\<rparr>,
            g\<lparr>scrollback := False\<rparr>)"
  using assms by (simp add: start_def getEnd_def saveCurrentDisplayType_def Let_def)

text \<open>A session that \<open>start\<close> begins never has \<open>started = 0\<close>: its guard needs \<open>end < now\<close>.\<close>

lemma begun_session_not_at_zero:
  assumes "t_end t < now"
  shows "t_started (fst (start now t g)) \<noteq> 0"
proof -
  have "now \<noteq> 0"
    using assms by (auto simp add: word_less_nat_alt)
  then show ?thesis
    using assms by (simp add: start_begins_session)
qed

lemmas transition_eval = isMessageOnDisplay_def start_def Transition_new_def getEnd_def
  saveCurrentDisplayType_def restoreCurrentDisplayType_def Let_def ulong_of_int_def
  mul16_def wrap16_def memcpy6_def digits_123456_def

text \<open>
  C4. The claim holds for \<open>end < now\<close> (lemma \<open>start_begins_session\<close>) and fails at
  \<open>end = now\<close>, where no session is active (\<open>isMessageOnDisplay\<close> is false) and yet
  \<open>start\<close> changes nothing: on the freshly constructed object at time 0, and on the
  session that was begun at time 1 and has ended at time 2201.
\<close>

theorem start_at_end_starts_nothing:
  "t_end (Transition_new 300 300 1000 False) \<le> 0 \<and>
   \<not> isMessageOnDisplay 0 (Transition_new 300 300 1000 False) \<and>
   start 0 (Transition_new 300 300 1000 False) digits_123456
     = (Transition_new 300 300 1000 False, digits_123456) \<and>
   t_end (fst (start 1 (Transition_new 300 300 1000 False) digits_123456)) = 2201 \<and>
   \<not> isMessageOnDisplay 2201 (fst (start 1 (Transition_new 300 300 1000 False) digits_123456)) \<and>
   start 2201 (fst (start 1 (Transition_new 300 300 1000 False) digits_123456))
              (snd (start 1 (Transition_new 300 300 1000 False) digits_123456))
     = start 1 (Transition_new 300 300 1000 False) digits_123456"
  by (simp add: transition_eval)

text \<open>
  C6. While a message is on display (\<open>now < end\<close>), \<open>start\<close> changes neither the object
  (start and end time, saved display modes and scrollback flag, regular and alternate
  digits) nor the live digit buffer, display-mode buffer and scrollback flag.
\<close>

theorem start_while_running_is_noop:
  assumes "isMessageOnDisplay now t"
  shows "start now t g = (t, g)"
proof -
  have "\<not> t_end t < now"
    using assms by (simp add: isMessageOnDisplay_def word_less_nat_alt)
  then show ?thesis
    by (simp add: start_def)
qed

theorem start_while_running_is_noop_witness:
  "isMessageOnDisplay 1000 (fst (start 1 (Transition_new 300 300 1000 False) digits_123456)) \<and>
   start 1000 (fst (start 1 (Transition_new 300 300 1000 False) digits_123456))
              (snd (start 1 (Transition_new 300 300 1000 False) digits_123456))
     = start 1 (Transition_new 300 300 1000 False) digits_123456"
proof -
  let ?s = "start 1 (Transition_new 300 300 1000 False) digits_123456"
  have r: "isMessageOnDisplay 1000 (fst ?s)"
    by (simp add: transition_eval)
  show ?thesis
    using r start_while_running_is_noop [OF r, of "snd ?s"] by simp
qed

subsection \<open>Saving and restoring the display mode\<close>

text \<open>
  C8. \<open>saveCurrentDisplayType\<close> followed by \<open>restoreCurrentDisplayType\<close> on the
  object as the save left it gives back the display-mode buffer and the scrollback flag
  that were live just before the save, whatever the live six-slot buffers and scrollback
  flag have become in between (the digit buffer is left as it is); in particular a
  restore right after the save gives back all globals, although the save itself sets
  the live scrollback flag to false.
\<close>

theorem save_restore_roundtrip:
  assumes "length (displayType g) = 6" and "length (displayType g') = 6"
  shows "displayType (restoreCurrentDisplayType (fst (saveCurrentDisplayType t g)) g')
           = displayType g \<and>
         scrollback (restoreCurrentDisplayType (fst (saveCurrentDisplayType t g)) g')
           = scrollback g \<and>
         NumberArray (restoreCurrentDisplayType (fst (saveCurrentDisplayType t g)) g')
           = NumberArray g' \<and>
         restoreCurrentDisplayType (fst (saveCurrentDisplayType t g))
           (snd (saveCurrentDisplayType t g)) = g \<and>
         scrollback (snd (saveCurrentDisplayType t g)) = False"
  using assms
  by (simp add: restoreCurrentDisplayType_def saveCurrentDisplayType_def memcpy6_def)

theorem save_restore_roundtrip_witness:
  "displayType (restoreCurrentDisplayType
      (fst (saveCurrentDisplayType (Transition_new 300 300 1000 False) digits_123456))
      \<lparr> NumberArray = [9, 8, 7, 6, 5, 4],
        displayType = [BLANKED, BLANKED, BLANKED, BLANKED, BLANKED, BLANKED],
        scrollback = False \<rparr>)
     = [NORMAL, NORMAL, NORMAL, NORMAL, NORMAL, NORMAL] \<and>
   scrollback (restoreCurrentDisplayType
      (fst (saveCurrentDisplayType (Transition_new 300 300 1000 False) digits_123456))
      \<lparr> NumberArray = [9, 8, 7, 6, 5, 4],
        displayType = [BLANKED, BLANKED, BLANKED, BLANKED, BLANKED, BLANKED],
        scrollback = False \<rparr>) = True \<and>
   scrollback (snd (saveCurrentDisplayType (Transition_new 300 300 1000 False) digits_123456))
     = False \<and>
   restoreCurrentDisplayType
      (fst (saveCurrentDisplayType (Transition_new 300 300 1000 False) digits_123456))
      (snd (saveCurrentDisplayType (Transition_new 300 300 1000 False) digits_123456))
     = digits_123456"
proof -
  let ?g' = "\<lparr> NumberArray = [9, 8, 7, 6, 5, 4],
        displayType = [BLANKED, BLANKED, BLANKED, BLANKED, BLANKED, BLANKED],
        scrollback = False \<rparr>"
  have a: "length (displayType digits_123456) = 6"
    by (simp add: digits_123456_def)
  have b: "length (displayType ?g') = 6"
    by simp
  show ?thesis
    using save_restore_roundtrip [OF a b, of "Transition_new 300 300 1000 False"]
    by (simp add: digits_123456_def)
qed

subsection \<open>scroll with a negative count\<close>

lemma scroll_nonnegative_example:
  "scroll 0 digits_123456 = Some (0, digits_123456) \<and>
   scroll 2 digits_123456 =
     Some (2, \<lparr> NumberArray = [1, 2, 1, 2, 3, 4],
                displayType = [BLANKED, BLANKED, NORMAL, NORMAL, NORMAL, NORMAL],
                scrollback = True \<rparr>)"
  by (simp add: scroll_def scroll_step_def digits_123456_def memcpy6_def
      array_get_def array_set_def scroll_loop.simps)

text \<open>
  C1. For counts 0 to 6 \<open>scroll\<close> does what the claim says (lemma \<open>scroll_spec\<close>; the
  example above). A negative count arrives in the \<open>byte\<close> parameter as 256 + count, the
  branch for \<open>count < 0\<close> is never taken, and the loop blanks all six slots and moves no
  digit: evaluated here for \<open>scroll(-1)\<close> and \<open>scroll(-2)\<close> on the digits 1 to 6.
\<close>

theorem scroll_negative_count_blanks_all:
  "scroll (byte_of_int (- 1)) digits_123456 =
     Some (255, digits_123456\<lparr>displayType := [BLANKED, BLANKED, BLANKED, BLANKED, BLANKED, BLANKED]\<rparr>) \<and>
   scroll (byte_of_int (- 2)) digits_123456 =
     Some (254, digits_123456\<lparr>displayType := [BLANKED, BLANKED, BLANKED, BLANKED, BLANKED, BLANKED]\<rparr>)"
  by (simp add: scroll_def scroll_step_def digits_123456_def byte_of_int_minus memcpy6_def
      array_get_def array_set_def scroll_loop.simps)

subsection \<open>The window that scramble writes\<close>

text \<open>
  C7. For every \<open>e\<close> and window bounds with \<open>end' \<le> 6\<close> on six-slot buffers,
  \<open>scramble(e, start, end')\<close> returns, sets each digit position \<open>k\<close> with
  \<open>start \<le> k < end'\<close> to \<open>hash(e / 20 + k) mod 10\<close> (C division; a value of at most 9),
  and leaves every other digit position, the display-mode buffer and the scrollback flag
  as they were; a second call with the same arguments on the result changes nothing.
\<close>

theorem scramble_writes_window:
  assumes "uint end' \<le> 6" and "six_slots g"
  shows "\<exists>g'. scramble e start' end' g = Some (uint start', g') \<and>
           displayType g' = displayType g \<and> scrollback g' = scrollback g \<and>
           length (NumberArray g') = 6 \<and>
           (\<forall>k < 6. NumberArray g' ! k =
               (if uint start' \<le> int k \<and> int k < uint end'
                then byte_of_ulong (hash (ulong_of_int (e sdiv 20 + int k)) mod 10)
                else NumberArray g ! k)) \<and>
           (\<forall>k < 6. uint start' \<le> int k \<and> int k < uint end' \<longrightarrow> unat (NumberArray g' ! k) \<le> 9) \<and>
           scramble e start' end' g' = Some (uint start', g')"
proof -
  have len: "length (NumberArray g) = 6"
    using assms(2) by (simp add: six_slots_def)
  obtain xs where xs: "scramble e start' end' g = Some (uint start', g\<lparr>NumberArray := xs\<rparr>)"
    "length xs = 6"
    "\<forall>k < 6. xs ! k =
        (if uint start' \<le> int k \<and> int k < uint end' then scramble_digit e (int k)
         else NumberArray g ! k)"
    using scramble_spec [OF assms(1) len, of e start'] by blast
  let ?g = "g\<lparr>NumberArray := xs\<rparr>"
  obtain ys where ys: "scramble e start' end' ?g = Some (uint start', ?g\<lparr>NumberArray := ys\<rparr>)"
    "length ys = 6"
    "\<forall>k < 6. ys ! k =
        (if uint start' \<le> int k \<and> int k < uint end' then scramble_digit e (int k)
         else NumberArray ?g ! k)"
    using scramble_spec [OF assms(1), of ?g e start'] xs(2) by auto
  have "ys ! k = xs ! k" if "k < 6" for k
    using that xs(3) ys(3) by simp
  then have "ys = xs"
    using xs(2) ys(2) by (intro nth_equalityI) simp_all
  then have again: "scramble e start' end' ?g = Some (uint start', ?g)"
    using ys(1) by simp
  have bound: "\<forall>k < 6. uint start' \<le> int k \<and> int k < uint end' \<longrightarrow> unat (xs ! k) \<le> 9"
    using xs(3) by (simp add: scramble_digit_bound)
  have vals: "\<forall>k < 6. NumberArray ?g ! k =
               (if uint start' \<le> int k \<and> int k < uint end'
                then byte_of_ulong (hash (ulong_of_int (e sdiv 20 + int k)) mod 10)
                else NumberArray g ! k)"
    using xs(3) by (simp add: scramble_digit_def)
  have "scramble e start' end' g = Some (uint start', ?g) \<and>
           displayType ?g = displayType g \<and> scrollback ?g = scrollback g \<and>
           length (NumberArray ?g) = 6 \<and>
           (\<forall>k < 6. NumberArray ?g ! k =
               (if uint start' \<le> int k \<and> int k < uint end'
                then byte_of_ulong (hash (ulong_of_int (e sdiv 20 + int k)) mod 10)
                else NumberArray g ! k)) \<and>
           (\<forall>k < 6. uint start' \<le> int k \<and> int k < uint end' \<longrightarrow> unat (NumberArray ?g ! k) \<le> 9) \<and>
           scramble e start' end' ?g = Some (uint start', ?g)"
    using xs(1,2) again bound vals by simp
  then show ?thesis by blast
qed

theorem scramble_writes_window_witness:
  "uint (5 :: byte) \<le> 6 \<and> six_slots digits_123456 \<and>
   scramble 100 2 5 digits_123456 = Some (2, digits_123456\<lparr>NumberArray := [1, 2, 3, 1, 7, 6]\<rparr>) \<and>
   (\<exists>g'. scramble 100 2 5 digits_123456 = Some (2, g') \<and>
          displayType g' = displayType digits_123456 \<and>
          NumberArray g' ! 0 = 1 \<and> NumberArray g' ! 1 = 2 \<and> NumberArray g' ! 5 = 6 \<and>
          unat (NumberArray g' ! 2) \<le> 9 \<and> unat (NumberArray g' ! 3) \<le> 9 \<and>
          unat (NumberArray g' ! 4) \<le> 9 \<and>
          scramble 100 2 5 g' = Some (2, g'))"
proof -
  have a: "uint (5 :: byte) \<le> 6" by simp
  have b: "six_slots digits_123456"
    by (simp add: six_slots_def digits_123456_def)
  have c: "scramble 100 2 5 digits_123456
             = Some (2, digits_123456\<lparr>NumberArray := [1, 2, 3, 1, 7, 6]\<rparr>)"
    by code_simp
  obtain g' where g': "scramble 100 2 5 digits_123456 = Some (uint (2 :: byte), g')"
    "displayType g' = displayType digits_123456"
    "\<forall>k < 6. NumberArray g' ! k =
        (if uint (2 :: byte) \<le> int k \<and> int k < uint (5 :: byte)
         then byte_of_ulong (hash (ulong_of_int (100 sdiv 20 + int k)) mod 10)
         else NumberArray digits_123456 ! k)"
    "\<forall>k < 6. uint (2 :: byte) \<le> int k \<and> int k < uint (5 :: byte) \<longrightarrow> unat (NumberArray g' ! k) \<le> 9"
    "scramble 100 2 5 g' = Some (uint (2 :: byte), g')"
    using scramble_writes_window [OF a b, of 100 2] by blast
  have "NumberArray g' ! 0 = 1" "NumberArray g' ! 1 = 2" "NumberArray g' ! 5 = 6"
    using g'(3) by (simp_all add: digits_123456_def)
  moreover have "unat (NumberArray g' ! 2) \<le> 9" "unat (NumberArray g' ! 3) \<le> 9"
    "unat (NumberArray g' ! 4) \<le> 9"
    using g'(4) by simp_all
  ultimately show ?thesis
    using a b c g'(1,2,5) by auto
qed

subsection \<open>Message on display\<close>

text \<open>
  The claim C5 as stated fails in three places. The freshly constructed object has the
  durations 300, 1000, 300 and \<open>started = 0\<close>, for which the formula gives 2200, but
  its end time is 0 and no message is on display at time 1899 (a \<open>start\<close> at time 0
  does not change that). With an effect-in duration of 20000 the doubling leaves the
  16-bit \<open>int\<close> and the session begun at time 1 ends at 4294943361, not at 41601. And
  while a message is on display a stepper can fail to return a result: \<open>scrollMsg\<close>
  divides by an effect-in duration of 0, and with an effect-out duration of 6000
  \<open>scrambleMsg\<close> and \<open>scrollInScrambleOut\<close> write past the six slots.
\<close>

theorem fresh_engine_has_no_message:
  "t_started (Transition_new 300 300 1000 False) = 0 \<and>
   getEnd (Transition_new 300 300 1000 False) = 2200 \<and>
   t_end (Transition_new 300 300 1000 False) = 0 \<and>
   \<not> isMessageOnDisplay 1899 (Transition_new 300 300 1000 False) \<and>
   \<not> isMessageOnDisplay 1899 (fst (start 0 (Transition_new 300 300 1000 False) digits_123456)) \<and>
   t_started (fst (start 1 (Transition_new 20000 300 1000 False) digits_123456)) = 1 \<and>
   t_end (fst (start 1 (Transition_new 20000 300 1000 False) digits_123456)) = 4294943361 \<and>
   isMessageOnDisplay 33001 (fst (start 1 (Transition_new 0 2000 30000 False) digits_123456)) \<and>
   scrollMsg 33001 (fst (start 1 (Transition_new 0 2000 30000 False) digits_123456))
                   (snd (start 1 (Transition_new 0 2000 30000 False) digits_123456)) = None \<and>
   isMessageOnDisplay 6901 (fst (start 1 (Transition_new 300 6000 1000 False) digits_123456)) \<and>
   scrambleMsg 6901 (fst (start 1 (Transition_new 300 6000 1000 False) digits_123456))
                    (snd (start 1 (Transition_new 300 6000 1000 False) digits_123456)) = None \<and>
   scrollInScrambleOut 6901 (fst (start 1 (Transition_new 300 6000 1000 False) digits_123456))
                    (snd (start 1 (Transition_new 300 6000 1000 False) digits_123456)) = None"
proof -
  have a: "t_started (Transition_new 300 300 1000 False) = 0 \<and>
   getEnd (Transition_new 300 300 1000 False) = 2200 \<and>
   t_end (Transition_new 300 300 1000 False) = 0 \<and>
   \<not> isMessageOnDisplay 1899 (Transition_new 300 300 1000 False) \<and>
   \<not> isMessageOnDisplay 1899 (fst (start 0 (Transition_new 300 300 1000 False) digits_123456))"
    by (simp add: transition_eval)
  have b: "t_started (fst (start 1 (Transition_new 20000 300 1000 False) digits_123456)) = 1 \<and>
   t_end (fst (start 1 (Transition_new 20000 300 1000 False) digits_123456)) = 4294943361"
    by (simp add: transition_eval)
  have c: "isMessageOnDisplay 33001 (fst (start 1 (Transition_new 0 2000 30000 False) digits_123456)) \<and>
   isMessageOnDisplay 6901 (fst (start 1 (Transition_new 300 6000 1000 False) digits_123456))"
    by (simp add: transition_eval)
  have d: "scrollMsg 33001 (fst (start 1 (Transition_new 0 2000 30000 False) digits_123456))
                   (snd (start 1 (Transition_new 0 2000 30000 False) digits_123456)) = None"
    by code_simp
  have e: "scrambleMsg 6901 (fst (start 1 (Transition_new 300 6000 1000 False) digits_123456))
                    (snd (start 1 (Transition_new 300 6000 1000 False) digits_123456)) = None"
    by code_simp
  have f: "scrollInScrambleOut 6901 (fst (start 1 (Transition_new 300 6000 1000 False) digits_123456))
                    (snd (start 1 (Transition_new 300 6000 1000 False) digits_123456)) = None"
    by code_simp
  show ?thesis
    using a b c d e f by blast
qed

text \<open>
  C5 (as amended). \<open>isMessageOnDisplay(now)\<close> holds exactly when \<open>now < end\<close> for the
  stored end time. That end time is 0 after construction. A \<open>start\<close> that begins a
  session sets \<open>started = now\<close> and sets the end time to \<open>started\<close> plus the two
  doublings, each computed in 16-bit \<open>int\<close>, plus the hold duration (32-bit unsigned);
  this is \<open>started + 2 * effectIn + hold + 2 * effectOut\<close> whenever both effect
  durations lie in -16384..16383. Each stepper returns false and changes nothing when
  \<open>end \<le> now\<close>; whenever a stepper returns, it returns true exactly when
  \<open>now < end\<close>; on six-slot arrays \<open>scrollMsg\<close> returns whenever both effect durations
  are not 0, and all three steppers return for valid durations. With durations 300,
  1000, 300 the session begun at time 1 ends at 2201: a message is on display at 1899,
  2199 and 2200, and not at 2201.
\<close>

theorem message_on_display_until_end:
  "isMessageOnDisplay now t = (now < t_end t) \<and>
   t_end (Transition_new eIn eOut hold sb) = 0 \<and>
   (t_end t < now' \<longrightarrow>
      t_started (fst (start now' t g)) = now' \<and>
      t_end (fst (start now' t g)) =
        now' + ulong_of_int (mul16 (t_effectInDuration t) 2) + ulong_of_int (t_holdDuration t)
             + ulong_of_int (mul16 (t_effectOutDuration t) 2)) \<and>
   (t_end t < now' \<and> doublings_fit t \<longrightarrow>
      t_end (fst (start now' t g)) =
        now' + ulong_of_int (2 * t_effectInDuration t + t_holdDuration t
                               + 2 * t_effectOutDuration t)) \<and>
   (\<not> now < t_end t \<longrightarrow>
      scrollMsg now t g = Some (False, g) \<and> scrambleMsg now t g = Some (False, g) \<and>
      scrollInScrambleOut now t g = Some (False, g)) \<and>
   (\<forall>b g'. scrollMsg now t g = Some (b, g') \<longrightarrow> b = (now < t_end t)) \<and>
   (\<forall>b g'. scrambleMsg now t g = Some (b, g') \<longrightarrow> b = (now < t_end t)) \<and>
   (\<forall>b g'. scrollInScrambleOut now t g = Some (b, g') \<longrightarrow> b = (now < t_end t)) \<and>
   (t_effectInDuration t \<noteq> 0 \<and> t_effectOutDuration t \<noteq> 0 \<and>
    six_slots g \<and> six_slot_members t \<longrightarrow>
      (\<exists>g'. scrollMsg now t g = Some (now < t_end t, g'))) \<and>
   (valid_durations t \<and> six_slots g \<and> six_slot_members t \<longrightarrow>
      (\<exists>g'. scrollMsg now t g = Some (now < t_end t, g')) \<and>
      (\<exists>g'. scrambleMsg now t g = Some (now < t_end t, g')) \<and>
      (\<exists>g'. scrollInScrambleOut now t g = Some (now < t_end t, g'))) \<and>
   t_started (fst (start 1 (Transition_new 300 300 1000 sb) g)) = 1 \<and>
   t_end (fst (start 1 (Transition_new 300 300 1000 sb) g)) = 2201 \<and>
   isMessageOnDisplay 1899 (fst (start 1 (Transition_new 300 300 1000 sb) g)) \<and>
   isMessageOnDisplay 2199 (fst (start 1 (Transition_new 300 300 1000 sb) g)) \<and>
   isMessageOnDisplay 2200 (fst (start 1 (Transition_new 300 300 1000 sb) g)) \<and>
   \<not> isMessageOnDisplay 2201 (fst (start 1 (Transition_new 300 300 1000 sb) g))"
proof -
  have a: "isMessageOnDisplay now t = (now < t_end t)"
    by (simp add: isMessageOnDisplay_def)
  have b: "t_end (Transition_new eIn eOut hold sb) = 0"
    by (simp add: Transition_new_def)
  have c: "t_started (fst (start now' t g)) = now' \<and>
      t_end (fst (start now' t g)) =
        now' + ulong_of_int (mul16 (t_effectInDuration t) 2) + ulong_of_int (t_holdDuration t)
             + ulong_of_int (mul16 (t_effectOutDuration t) 2)" if "t_end t < now'"
    using that by (simp add: start_begins_session)
  have d: "t_end (fst (start now' t g)) =
        now' + ulong_of_int (2 * t_effectInDuration t + t_holdDuration t
                               + 2 * t_effectOutDuration t)"
    if "t_end t < now'" "doublings_fit t"
    using that by (simp add: start_begins_session doublings_fit_products ulong_of_int_def)
  have e: "scrollMsg now t g = Some (False, g) \<and> scrambleMsg now t g = Some (False, g) \<and>
      scrollInScrambleOut now t g = Some (False, g)" if "\<not> now < t_end t"
    using that by (simp add: scrollMsg_def scrambleMsg_def scrollInScrambleOut_def)
  have s: "\<exists>g'. scrollMsg now t g = Some (now < t_end t, g')"
    if "t_effectInDuration t \<noteq> 0" "t_effectOutDuration t \<noteq> 0"
      "six_slots g" "six_slot_members t"
    using scrollMsg_returns [OF that] .
  have f: "(\<exists>g'. scrollMsg now t g = Some (now < t_end t, g')) \<and>
      (\<exists>g'. scrambleMsg now t g = Some (now < t_end t, g')) \<and>
      (\<exists>g'. scrollInScrambleOut now t g = Some (now < t_end t, g'))"
    if "valid_durations t" "six_slots g" "six_slot_members t"
  proof -
    have "t_effectInDuration t \<noteq> 0" "t_effectOutDuration t \<noteq> 0"
      using that(1) by (auto simp add: valid_durations_def)
    then show ?thesis
      using s that(2,3) scrambleMsg_returns [OF that] scrollInScrambleOut_returns [OF that]
      by simp
  qed
  have x: "t_started (fst (start 1 (Transition_new 300 300 1000 sb) g)) = 1 \<and>
   t_end (fst (start 1 (Transition_new 300 300 1000 sb) g)) = 2201 \<and>
   isMessageOnDisplay 1899 (fst (start 1 (Transition_new 300 300 1000 sb) g)) \<and>
   isMessageOnDisplay 2199 (fst (start 1 (Transition_new 300 300 1000 sb) g)) \<and>
   isMessageOnDisplay 2200 (fst (start 1 (Transition_new 300 300 1000 sb) g)) \<and>
   \<not> isMessageOnDisplay 2201 (fst (start 1 (Transition_new 300 300 1000 sb) g))"
    by (simp add: isMessageOnDisplay_def start_def Transition_new_def getEnd_def
        saveCurrentDisplayType_def Let_def ulong_of_int_def mul16_def wrap16_def)
  have p: "(\<forall>b g'. scrollMsg now t g = Some (b, g') \<longrightarrow> b = (now < t_end t)) \<and>
   (\<forall>b g'. scrambleMsg now t g = Some (b, g') \<longrightarrow> b = (now < t_end t)) \<and>
   (\<forall>b g'. scrollInScrambleOut now t g = Some (b, g') \<longrightarrow> b = (now < t_end t))"
    using scrollMsg_result [of now t g] scrambleMsg_result [of now t g]
      scrollInScrambleOut_result [of now t g] by blast
  show ?thesis
    using a b c d e s f p x by blast
qed

theorem message_on_display_until_end_witness:
  "t_end (Transition_new 300 300 1000 False) < 1 \<and>
   doublings_fit (Transition_new 300 300 1000 False) \<and>
   valid_durations (fst (start 1 (Transition_new 300 300 1000 False) digits_123456)) \<and>
   six_slots (snd (start 1 (Transition_new 300 300 1000 False) digits_123456)) \<and>
   six_slot_members (fst (start 1 (Transition_new 300 300 1000 False) digits_123456)) \<and>
   t_end (fst (start 1 (Transition_new 300 300 1000 False) digits_123456)) = 2201 \<and>
   (\<exists>g'. scrollMsg 2200 (fst (start 1 (Transition_new 300 300 1000 False) digits_123456))
             (snd (start 1 (Transition_new 300 300 1000 False) digits_123456)) = Some (True, g')) \<and>
   (\<exists>g'. scrambleMsg 2200 (fst (start 1 (Transition_new 300 300 1000 False) digits_123456))
             (snd (start 1 (Transition_new 300 300 1000 False) digits_123456)) = Some (True, g')) \<and>
   (\<exists>g'. scrollInScrambleOut 2200 (fst (start 1 (Transition_new 300 300 1000 False) digits_123456))
             (snd (start 1 (Transition_new 300 300 1000 False) digits_123456)) = Some (True, g')) \<and>
   scrollMsg 2201 (fst (start 1 (Transition_new 300 300 1000 False) digits_123456))
             (snd (start 1 (Transition_new 300 300 1000 False) digits_123456))
      = Some (False, snd (start 1 (Transition_new 300 300 1000 False) digits_123456))"
proof -
  let ?t = "fst (start 1 (Transition_new 300 300 1000 False) digits_123456)"
  let ?g = "snd (start 1 (Transition_new 300 300 1000 False) digits_123456)"
  have s: "t_end (Transition_new 300 300 1000 False) < 1"
    by (simp add: Transition_new_def)
  have df: "doublings_fit (Transition_new 300 300 1000 False)"
    by (simp add: doublings_fit_def Transition_new_def)
  have v: "valid_durations ?t"
    by (simp add: valid_durations_def transition_eval)
  have g: "six_slots ?g"
    by (simp add: six_slots_def transition_eval)
  have m: "six_slot_members ?t"
    by (simp add: six_slot_members_def transition_eval FADE_def)
  have e: "t_end ?t = 2201"
    by (simp add: transition_eval)
  have e': "t_end ?t =
      1 + ulong_of_int (2 * t_effectInDuration (Transition_new 300 300 1000 False)
                          + t_holdDuration (Transition_new 300 300 1000 False)
                          + 2 * t_effectOutDuration (Transition_new 300 300 1000 False))"
    using message_on_display_until_end
      [of _ "Transition_new 300 300 1000 False" _ _ _ _ 1 digits_123456] s df
    by blast
  have r: "(2200 :: ulong) < t_end ?t" "\<not> (2201 :: ulong) < t_end ?t"
    by (simp_all add: e)
  show ?thesis
    using message_on_display_until_end [of 2200 ?t _ _ _ _ _ ?g]
      message_on_display_until_end [of 2201 ?t _ _ _ _ _ ?g] s df v g m e r
    by simp
qed

end
